theory Spec2Isabelle
  imports
    Main
    "HOL-Library.Sublist"
    "HOL-Library.Char_ord"
    "HOL-Library.List_Lexorder"
    "HOL-Library.Product_Lexorder"
begin

section \<open>Paths\<close>

text \<open>
  A \<^verbatim>\<open>pathlib.Path\<close> of the program is always absolute when it reaches the code below
  (the browser resolves its directory on every load). It is modelled by the list of its
  components below the root: \<open>[]\<close> is \<^verbatim>\<open>/\<close>, \<open>[''mnt'', ''nas'']\<close> is
  \<^verbatim>\<open>/mnt/nas\<close>. Names are strings of bytes.
\<close>

type_synonym path = "string list"

text \<open>\<^verbatim>\<open>Path.parent\<close>: the parent of the root is the root itself.\<close>

definition parent :: "path \<Rightarrow> path" where
  "parent p = butlast p"

text \<open>\<^verbatim>\<open>Path.name\<close>: the last component, the empty string for the root.\<close>

definition name_of :: "path \<Rightarrow> string" where
  "name_of p = (if p = [] then [] else last p)"

text \<open>
  \<^verbatim>\<open>dir / name\<close> for a name of one component; joining the empty string gives the
  directory itself.
\<close>

definition joinpath :: "path \<Rightarrow> string \<Rightarrow> path" where
  "joinpath d n = (if n = [] then d else d @ [n])"

text \<open>\<^verbatim>\<open>str(path)\<close> of an absolute POSIX path.\<close>

fun join_slash :: "string list \<Rightarrow> string" where
  "join_slash [] = []"
| "join_slash (c # cs) = CHR ''/'' # c @ join_slash cs"

definition path_str :: "path \<Rightarrow> string" where
  "path_str p = (if p = [] then ''/'' else join_slash p)"

text \<open>\<^verbatim>\<open>str.rfind\<close> of one character: the index of its last occurrence.\<close>

fun rfind :: "char \<Rightarrow> string \<Rightarrow> nat option" where
  "rfind c [] = None"
| "rfind c (x # xs) =
     (case rfind c xs of
        Some i \<Rightarrow> Some (Suc i)
      | None \<Rightarrow> if x = c then Some 0 else None)"

text \<open>
  \<^verbatim>\<open>PurePath.suffix\<close> and \<^verbatim>\<open>PurePath.stem\<close>: the name is split at its last dot
  when that dot is neither the first nor the last character.
\<close>

definition suffix_of :: "string \<Rightarrow> string" where
  "suffix_of n =
     (case rfind CHR ''.'' n of
        Some i \<Rightarrow> if 0 < i \<and> i < length n - 1 then drop i n else []
      | None \<Rightarrow> [])"

definition stem_of :: "string \<Rightarrow> string" where
  "stem_of n =
     (case rfind CHR ''.'' n of
        Some i \<Rightarrow> if 0 < i \<and> i < length n - 1 then take i n else n
      | None \<Rightarrow> n)"

text \<open>\<^verbatim>\<open>str(counter)\<close> for a counter that starts at 1 and only grows: decimal digits.\<close>

definition digit :: "nat \<Rightarrow> char" where
  "digit d = ''0123456789'' ! d"

function show_nat :: "nat \<Rightarrow> string" where
  "show_nat n = (if n < 10 then [digit n] else show_nat (n div 10) @ [digit (n mod 10)])"
  by pat_completeness auto
termination
  by (relation "measure id") auto

declare show_nat.simps [simp del]

text \<open>The f-string \<^verbatim>\<open>f"{stem} ({counter}){suffix}"\<close> of both rename loops.\<close>

definition renamed :: "string \<Rightarrow> nat \<Rightarrow> string \<Rightarrow> string" where
  "renamed stem counter sfx = stem @ '' ('' @ show_nat counter @ '')'' @ sfx"

section \<open>The file system\<close>

text \<open>
  The state the program reads and changes. An entry is a regular file (with the number of
  its inode) or a directory; \<open>links\<close> is the link count stored in each inode. The tree
  is an association list in creation order, which is the order \<^verbatim>\<open>iterdir\<close> and
  \<^verbatim>\<open>os.walk\<close> list a directory in. The modelled file system is one volume and holds no
  symbolic links, so \<^verbatim>\<open>is_symlink()\<close> is false and \<^verbatim>\<open>resolve()\<close> changes nothing;
  ownership and mode bits are not part of the state.
\<close>

datatype node = File nat | Dir

record filesystem =
  tree :: "(path \<times> node) list"
  links :: "nat \<Rightarrow> nat"

datatype os_error = ENOENT | EEXIST | ENOTDIR | EISDIR | EPERM | ENOTEMPTY | EBUSY

definition node_at :: "filesystem \<Rightarrow> path \<Rightarrow> node option" where
  "node_at fs p = (if p = [] then Some Dir else map_of (tree fs) p)"

definition path_exists :: "filesystem \<Rightarrow> path \<Rightarrow> bool" where
  "path_exists fs p = (node_at fs p \<noteq> None)"

definition is_dir :: "filesystem \<Rightarrow> path \<Rightarrow> bool" where
  "is_dir fs p = (node_at fs p = Some Dir)"

definition is_file :: "filesystem \<Rightarrow> path \<Rightarrow> bool" where
  "is_file fs p = (case node_at fs p of Some (File i) \<Rightarrow> True | _ \<Rightarrow> False)"

definition is_symlink :: "filesystem \<Rightarrow> path \<Rightarrow> bool" where
  "is_symlink fs p = False"

definition resolve :: "path \<Rightarrow> path" where
  "resolve p = p"

text \<open>The entries of a directory, each once, in creation order.\<close>

definition children :: "filesystem \<Rightarrow> path \<Rightarrow> path list" where
  "children fs d = remdups (filter (\<lambda>p. p \<noteq> [] \<and> butlast p = d) (map fst (tree fs)))"

text \<open>\<^verbatim>\<open>Path.iterdir\<close>: an \<^verbatim>\<open>OSError\<close> when the path is not a directory.\<close>

definition iterdir :: "filesystem \<Rightarrow> path \<Rightarrow> os_error + path list" where
  "iterdir fs d =
     (if is_dir fs d then Inr (children fs d)
      else if path_exists fs d then Inl ENOTDIR else Inl ENOENT)"

text \<open>\<^verbatim>\<open>Path.stat().st_nlink\<close>; a directory has two links and one more per sub-directory.\<close>

definition st_nlink :: "filesystem \<Rightarrow> path \<Rightarrow> os_error + nat" where
  "st_nlink fs p =
     (case node_at fs p of
        None \<Rightarrow> Inl ENOENT
      | Some (File i) \<Rightarrow> Inr (links fs i)
      | Some Dir \<Rightarrow> Inr (2 + length (filter (is_dir fs) (children fs p))))"

definition remove_entry :: "path \<Rightarrow> (path \<times> node) list \<Rightarrow> (path \<times> node) list" where
  "remove_entry p t = filter (\<lambda>e. fst e \<noteq> p) t"

text \<open>\<^verbatim>\<open>os.link(src, dst)\<close>: a second name for the inode of \<open>src\<close>.\<close>

definition os_link :: "filesystem \<Rightarrow> path \<Rightarrow> path \<Rightarrow> os_error + filesystem" where
  "os_link fs src dst =
     (case node_at fs src of
        None \<Rightarrow> Inl ENOENT
      | Some Dir \<Rightarrow> Inl EPERM
      | Some (File i) \<Rightarrow>
          if path_exists fs dst then Inl EEXIST
          else if \<not> is_dir fs (parent dst) then Inl ENOENT
          else Inr (fs\<lparr>tree := tree fs @ [(dst, File i)],
                       links := (links fs)(i := links fs i + 1)\<rparr>))"

text \<open>\<^verbatim>\<open>Path.unlink()\<close>: removes one name of a file.\<close>

definition os_unlink :: "filesystem \<Rightarrow> path \<Rightarrow> os_error + filesystem" where
  "os_unlink fs p =
     (case node_at fs p of
        None \<Rightarrow> Inl ENOENT
      | Some Dir \<Rightarrow> Inl EISDIR
      | Some (File i) \<Rightarrow>
          Inr (fs\<lparr>tree := remove_entry p (tree fs),
                   links := (links fs)(i := links fs i - 1)\<rparr>))"

text \<open>\<^verbatim>\<open>Path.rmdir()\<close>: removes an empty directory.\<close>

definition os_rmdir :: "filesystem \<Rightarrow> path \<Rightarrow> os_error + filesystem" where
  "os_rmdir fs p =
     (if \<not> path_exists fs p then Inl ENOENT
      else if \<not> is_dir fs p then Inl ENOTDIR
      else if children fs p \<noteq> [] then Inl ENOTEMPTY
      else if p = [] then Inl EBUSY
      else Inr (fs\<lparr>tree := remove_entry p (tree fs)\<rparr>))"

text \<open>
  \<^verbatim>\<open>shutil.rmtree(path)\<close>: removes a directory with everything below it; every file name
  removed takes one link from its inode.
\<close>

fun drop_links :: "path \<Rightarrow> (path \<times> node) list \<Rightarrow> (nat \<Rightarrow> nat) \<Rightarrow> (nat \<Rightarrow> nat)" where
  "drop_links p [] l = l"
| "drop_links p ((q, File i) # t) l =
     drop_links p t (if prefix p q then l(i := l i - 1) else l)"
| "drop_links p ((q, Dir) # t) l = drop_links p t l"

definition rmtree :: "filesystem \<Rightarrow> path \<Rightarrow> os_error + filesystem" where
  "rmtree fs p =
     (if \<not> path_exists fs p then Inl ENOENT
      else if \<not> is_dir fs p then Inl ENOTDIR
      else if p = [] then Inl EBUSY
      else Inr (fs\<lparr>tree := filter (\<lambda>e. \<not> prefix p (fst e)) (tree fs),
                   links := drop_links p (tree fs) (links fs)\<rparr>))"

text \<open>
  \<^verbatim>\<open>Path.mkdir(parents=True, exist_ok=True)\<close>: every missing directory on the way is
  created and an existing directory is accepted; the call fails, creating nothing, when
  the path or one of its ancestors is a regular file.
\<close>

definition add_dir :: "filesystem \<Rightarrow> path \<Rightarrow> filesystem" where
  "add_dir fs q = (if path_exists fs q then fs else fs\<lparr>tree := tree fs @ [(q, Dir)]\<rparr>)"

definition mkdir_parents :: "filesystem \<Rightarrow> path \<Rightarrow> os_error + filesystem" where
  "mkdir_parents fs p =
     (if is_file fs p then Inl EEXIST
      else if \<exists>q \<in> set (prefixes p). is_file fs q then Inl ENOTDIR
      else Inr (foldl add_dir fs (prefixes p)))"

section \<open>Permission rules\<close>

text \<open>
  The policy document is \<^verbatim>\<open>config["global"]["permissions"]\<close>: a dictionary from mount
  names to \<^verbatim>\<open>{"applications": {app: {"paths": [...], "user", "group", "permissions"}}}\<close>.
  Python dictionaries iterate in insertion order, so each level is an association list.
  The code reads \<^verbatim>\<open>paths\<close> and \<^verbatim>\<open>applications\<close> with a default and the three other keys
  by subscript inside \<^verbatim>\<open>try\<close>: a key that is absent raises \<^verbatim>\<open>KeyError\<close>, which is
  caught and logged, and the loop goes on. The absent key is \<open>None\<close> here.
\<close>

record app_info =
  app_paths :: "string list"
  app_user :: "string option"
  app_group :: "string option"
  app_permissions :: "string option"

record permission_rule =
  rule_user :: string
  rule_group :: string
  rule_permissions :: string

type_synonym applications = "(string \<times> app_info) list"

type_synonym config = "(string \<times> applications) list"

text \<open>The innermost loop, over the paths of one application.\<close>

fun match_paths :: "string \<Rightarrow> app_info \<Rightarrow> string list \<Rightarrow> permission_rule option" where
  "match_paths s info [] = None"
| "match_paths s info (app_path # rest) =
     (if prefix app_path s then
        (case (app_user info, app_group info, app_permissions info) of
           (Some u, Some g, Some m) \<Rightarrow>
             Some \<lparr>rule_user = u, rule_group = g, rule_permissions = m\<rparr>
         | _ \<Rightarrow> match_paths s info rest)
      else match_paths s info rest)"

fun match_apps :: "string \<Rightarrow> applications \<Rightarrow> permission_rule option" where
  "match_apps s [] = None"
| "match_apps s ((app, info) # rest) =
     (case match_paths s info (app_paths info) of
        Some r \<Rightarrow> Some r
      | None \<Rightarrow> match_apps s rest)"

fun match_mounts :: "string \<Rightarrow> config \<Rightarrow> permission_rule option" where
  "match_mounts s [] = None"
| "match_mounts s ((mount, apps) # rest) =
     (case match_apps s apps of
        Some r \<Rightarrow> Some r
      | None \<Rightarrow> match_mounts s rest)"

text \<open>
  \<^verbatim>\<open>get_app_permissions_for_path\<close>; the configuration is \<open>None\<close> when
  \<^verbatim>\<open>load_homeserver_config\<close> found none.
\<close>

definition get_app_permissions_for_path :: "config option \<Rightarrow> path \<Rightarrow> permission_rule option" where
  "get_app_permissions_for_path cfg dest_path =
     (case cfg of
        None \<Rightarrow> None
      | Some perms \<Rightarrow> match_mounts (path_str dest_path) perms)"

section \<open>The deployment engine\<close>

text \<open>
  \<^verbatim>\<open>create_hardlink\<close> of \<^verbatim>\<open>core.py\<close>. The conflict strategy is the string the code
  compares. After each directory or link it creates, the code looks the path up in the
  permission rules and applies the rule with \<^verbatim>\<open>chown\<close> and \<^verbatim>\<open>chmod\<close>, every exception
  caught: that changes ownership and mode only, which the modelled state does not hold, so
  the step does not appear below.
\<close>

subsection \<open>Names with different counters differ\<close>

lemma show_nat_nonempty: "show_nat n \<noteq> []"
  by (subst show_nat.simps) simp

lemma digit_inj: "a < 10 \<Longrightarrow> b < 10 \<Longrightarrow> digit a = digit b \<Longrightarrow> a = b"
proof -
  assume a: "a < 10" and b: "b < 10" and e: "digit a = digit b"
  have d: "distinct ''0123456789''" by simp
  have "length ''0123456789'' = 10" by simp
  with a b e d show "a = b"
    unfolding digit_def by (metis nth_eq_iff_index_eq)
qed

lemma show_nat_inj: "show_nat a = show_nat b \<Longrightarrow> a = b"
proof (induction a arbitrary: b rule: show_nat.induct)
  case (1 n)
  show ?case
  proof (cases "n < 10")
    case True
    then have sn: "show_nat n = [digit n]" by (subst show_nat.simps) simp
    show ?thesis
    proof (cases "b < 10")
      case True
      then have "show_nat b = [digit b]" by (subst show_nat.simps) simp
      with sn "1.prems" have "digit n = digit b" by simp
      with \<open>n < 10\<close> True show ?thesis by (rule digit_inj)
    next
      case False
      then have "show_nat b = show_nat (b div 10) @ [digit (b mod 10)]"
        by (subst show_nat.simps) simp
      with sn "1.prems" show_nat_nonempty [of "b div 10"] show ?thesis
        by (cases "show_nat (b div 10)") auto
    qed
  next
    case False
    then have sn: "show_nat n = show_nat (n div 10) @ [digit (n mod 10)]"
      by (subst show_nat.simps) simp
    show ?thesis
    proof (cases "b < 10")
      case True
      then have "show_nat b = [digit b]" by (subst show_nat.simps) simp
      with sn "1.prems" show_nat_nonempty [of "n div 10"] show ?thesis
        by (cases "show_nat (n div 10)") auto
    next
      case b: False
      then have "show_nat b = show_nat (b div 10) @ [digit (b mod 10)]"
        by (subst show_nat.simps) simp
      with sn "1.prems" have e1: "show_nat (n div 10) = show_nat (b div 10)"
        and e2: "digit (n mod 10) = digit (b mod 10)" by auto
      from "1.IH" [OF False e1] have d: "n div 10 = b div 10" .
      have "n mod 10 = b mod 10" by (rule digit_inj [OF _ _ e2]) auto
      with d show ?thesis by (metis div_mult_mod_eq)
    qed
  qed
qed

lemma renamed_inj: "renamed stem a sfx = renamed stem b sfx \<Longrightarrow> a = b"
  unfolding renamed_def by (auto dest: show_nat_inj)

lemma renamed_nonempty: "renamed stem c sfx \<noteq> []"
  unfolding renamed_def by simp

lemma finite_taken_names: "finite {j. path_exists fs (d @ [renamed stem j sfx])}"
proof -
  have "{j. path_exists fs (d @ [renamed stem j sfx])}
          \<subseteq> (\<lambda>j. d @ [renamed stem j sfx]) -` (fst ` set (tree fs))"
    by (auto simp: path_exists_def node_at_def dom_map_of_conv_image_fst [symmetric])
  moreover have "finite ((\<lambda>j. d @ [renamed stem j sfx]) -` (fst ` set (tree fs)))"
    by (rule finite_vimageI) (auto simp: inj_on_def dest: renamed_inj)
  ultimately show ?thesis by (rule finite_subset)
qed

subsection \<open>A file source\<close>

text \<open>
  The \<^verbatim>\<open>while\<close> loop of the \<^verbatim>\<open>rename\<close> branch for a file source (lines 163 to 172):
  \<open>None\<close> is its \<^verbatim>\<open>return False\<close>, taken as soon as the counter, just incremented,
  exceeds 999.
\<close>

function probe_file ::
  "filesystem \<Rightarrow> path \<Rightarrow> string \<Rightarrow> string \<Rightarrow> path \<Rightarrow> nat \<Rightarrow> path option" where
  "probe_file fs destination_dir original_stem original_suffix link_path counter =
     (if path_exists fs link_path \<or> is_symlink fs link_path then
        (if counter + 1 > 999 then None
         else probe_file fs destination_dir original_stem original_suffix
                (joinpath destination_dir (renamed original_stem counter original_suffix))
                (counter + 1))
      else Some link_path)"
  by pat_completeness auto
termination
  by (relation "measure (\<lambda>(fs, d, st, sf, lp, c). 1000 - c)") auto

declare probe_file.simps [simp del]

definition link_file :: "filesystem \<Rightarrow> path \<Rightarrow> path \<Rightarrow> bool \<times> filesystem" where
  "link_file fs source link_path =
     (case os_link fs source link_path of
        Inl e \<Rightarrow> (False, fs)
      | Inr fs1 \<Rightarrow> (True, fs1))"

text \<open>Removal of what is in the way, for \<^verbatim>\<open>overwrite\<close> at a file's destination.\<close>

definition remove_existing :: "filesystem \<Rightarrow> path \<Rightarrow> os_error + filesystem" where
  "remove_existing fs p =
     (if is_dir fs p \<and> \<not> is_symlink fs p then rmtree fs p else os_unlink fs p)"

definition deploy_file ::
  "filesystem \<Rightarrow> path \<Rightarrow> path \<Rightarrow> path \<Rightarrow> string \<Rightarrow> bool \<times> filesystem" where
  "deploy_file fs source destination_dir link_path conflict_strategy =
     (if path_exists fs link_path \<or> is_symlink fs link_path then
        (if conflict_strategy = ''fail'' then (False, fs)
         else if conflict_strategy = ''skip'' then (True, fs)
         else if conflict_strategy = ''overwrite'' then
           (case remove_existing fs link_path of
              Inl e \<Rightarrow> (False, fs)
            | Inr fs1 \<Rightarrow> link_file fs1 source link_path)
         else if conflict_strategy = ''rename'' then
           (case probe_file fs destination_dir (stem_of (name_of link_path))
                   (suffix_of (name_of link_path)) link_path 1 of
              None \<Rightarrow> (False, fs)
            | Some free_path \<Rightarrow> link_file fs source free_path)
         else (False, fs))
      else link_file fs source link_path)"

subsection \<open>A directory source\<close>

text \<open>
  The \<^verbatim>\<open>while\<close> loop of the \<^verbatim>\<open>rename\<close> branch inside the walk (lines 114 to 124).
  Its \<^verbatim>\<open>continue\<close> stands in the \<^verbatim>\<open>while\<close> loop, so past 999 the loop clears
  \<^verbatim>\<open>all_success\<close> and goes on probing; it ends at the first free name. It terminates
  because the names of different counters differ and the tree is finite.
\<close>

function probe_dir ::
  "filesystem \<Rightarrow> path \<Rightarrow> string \<Rightarrow> string \<Rightarrow> path \<Rightarrow> nat \<Rightarrow> bool \<Rightarrow> path \<times> bool" where
  "probe_dir fs dest_root original_stem original_suffix dest_file counter all_success =
     (if path_exists fs dest_file \<or> is_symlink fs dest_file then
        probe_dir fs dest_root original_stem original_suffix
          (joinpath dest_root (renamed original_stem counter original_suffix))
          (counter + 1)
          (if counter + 1 > 999 then False else all_success)
      else (dest_file, all_success))"
  by pat_completeness auto
termination
proof (relation "measure (\<lambda>(fs, d, st, sf, df, c, ok).
          card {j. c \<le> j \<and> path_exists fs (d @ [renamed st j sf])}
          + (if path_exists fs df then 1 else 0))")
  show "wf (measure (\<lambda>(fs, d, st, sf, df, c, ok).
          card {j. c \<le> j \<and> path_exists fs (d @ [renamed st j sf])}
          + (if path_exists fs df then 1 else 0)))"
    by simp
next
  fix fs :: filesystem and d :: path and st sf :: string and df :: path and c :: nat
    and ok :: bool
  assume "path_exists fs df \<or> is_symlink fs df"
  then have ex: "path_exists fs df" by (simp add: is_symlink_def)
  let ?A = "\<lambda>k. {j. k \<le> j \<and> path_exists fs (d @ [renamed st j sf])}"
  have fin: "finite (?A c)"
    by (rule finite_subset [OF _ finite_taken_names [of fs d st sf]]) auto
  have split: "?A c = ?A (c + 1) \<union> (if path_exists fs (d @ [renamed st c sf]) then {c} else {})"
  proof -
    have "\<And>x. c \<le> x \<Longrightarrow> x \<noteq> c \<Longrightarrow> Suc c \<le> x" by arith
    then show ?thesis by (auto split: if_splits) (metis Suc_leI le_neq_implies_less)
  qed
  have "card (?A (c + 1)) + (if path_exists fs (d @ [renamed st c sf]) then 1 else 0)
          = card (?A c)"
  proof (cases "path_exists fs (d @ [renamed st c sf])")
    case True
    then have "?A c = insert c (?A (c + 1))" using split by auto
    moreover have "c \<notin> ?A (c + 1)" by simp
    moreover have "finite (?A (c + 1))"
      by (rule finite_subset [OF _ fin]) auto
    ultimately show ?thesis using True by simp
  next
    case False
    then have "?A c = ?A (c + 1)" using split by auto
    with False show ?thesis by simp
  qed
  with ex show "((fs, d, st, sf, joinpath d (renamed st c sf), c + 1,
           if 999 < c + 1 then False else ok), fs, d, st, sf, df, c, ok)
        \<in> measure (\<lambda>(fs, d, st, sf, df, c, ok).
          card {j. c \<le> j \<and> path_exists fs (d @ [renamed st j sf])}
          + (if path_exists fs df then 1 else 0))"
    by (simp add: joinpath_def renamed_nonempty)
qed

declare probe_dir.simps [simp del]

text \<open>The \<^verbatim>\<open>try\<close> block around \<^verbatim>\<open>os.link\<close> (lines 125 to 134).\<close>

definition try_link :: "filesystem \<Rightarrow> path \<Rightarrow> path \<Rightarrow> bool \<Rightarrow> filesystem \<times> bool" where
  "try_link fs src_file dest_file all_success =
     (case os_link fs src_file dest_file of
        Inl e \<Rightarrow> (fs, False)
      | Inr fs1 \<Rightarrow> (fs1, all_success))"

text \<open>The body of \<^verbatim>\<open>for file in files\<close> (lines 91 to 134), for one file.\<close>

definition link_one ::
  "path \<Rightarrow> path \<Rightarrow> string \<Rightarrow> filesystem \<times> bool \<Rightarrow> string \<Rightarrow> filesystem \<times> bool" where
  "link_one root dest_root conflict_strategy st file =
     (let fs = fst st; all_success = snd st;
          src_file = joinpath root file;
          dest_file = joinpath dest_root file
      in if path_exists fs dest_file \<or> is_symlink fs dest_file then
           (if conflict_strategy = ''fail'' then (fs, False)
            else if conflict_strategy = ''skip'' then (fs, all_success)
            else if conflict_strategy = ''overwrite'' then
              (case remove_existing fs dest_file of
                 Inl e \<Rightarrow> (fs, False)
               | Inr fs1 \<Rightarrow> try_link fs1 src_file dest_file all_success)
            else if conflict_strategy = ''rename'' then
              (case probe_dir fs dest_root (stem_of (name_of dest_file))
                      (suffix_of (name_of dest_file)) dest_file 1 all_success of
                 (free_path, ok) \<Rightarrow> try_link fs src_file free_path ok)
            else try_link fs src_file dest_file all_success)
         else try_link fs src_file dest_file all_success)"

text \<open>
  The body of the \<^verbatim>\<open>os.walk\<close> loop for one directory \<open>root\<close> of the source tree
  (lines 78 to 134): the destination directory is created, and when that fails the files
  of this directory are skipped (\<^verbatim>\<open>continue\<close>). \<open>root\<close> always lies below
  \<open>source\<close>, so \<^verbatim>\<open>relative_to\<close> drops the components of \<open>source\<close>.
\<close>

definition visit ::
  "path \<Rightarrow> path \<Rightarrow> string \<Rightarrow> path \<Rightarrow> string list \<Rightarrow> filesystem \<times> bool \<Rightarrow> filesystem \<times> bool" where
  "visit source target_dir_path conflict_strategy root files st =
     (let rel_root = drop (length source) root;
          dest_root = target_dir_path @ rel_root
      in case mkdir_parents (fst st) dest_root of
           Inl e \<Rightarrow> (fst st, False)
         | Inr fs1 \<Rightarrow> foldl (link_one root dest_root conflict_strategy) (fs1, snd st) files)"

text \<open>
  \<^verbatim>\<open>os.walk(source)\<close>, top down: a directory is listed when the walk reaches it, in the
  state of that moment, its loop body runs, and then the walk descends into each
  sub-directory it listed. A path that is not a directory yields nothing. The first
  argument bounds the depth of the descent; \<open>None\<close> says the bound was reached.
\<close>

definition subdirs :: "filesystem \<Rightarrow> path \<Rightarrow> string list" where
  "subdirs fs root = map name_of (filter (is_dir fs) (children fs root))"

definition nondirs :: "filesystem \<Rightarrow> path \<Rightarrow> string list" where
  "nondirs fs root = map name_of (filter (\<lambda>c. \<not> is_dir fs c) (children fs root))"

fun walk ::
    "nat \<Rightarrow> path \<Rightarrow> path \<Rightarrow> string \<Rightarrow> path \<Rightarrow> filesystem \<times> bool \<Rightarrow> (filesystem \<times> bool) option"
  and walk_dirs ::
    "nat \<Rightarrow> path \<Rightarrow> path \<Rightarrow> string \<Rightarrow> path \<Rightarrow> string list \<Rightarrow> filesystem \<times> bool
      \<Rightarrow> (filesystem \<times> bool) option" where
  "walk 0 source target conflict_strategy root st = None"
| "walk (Suc n) source target conflict_strategy root st =
     (if \<not> is_dir (fst st) root then Some st
      else walk_dirs n source target conflict_strategy root (subdirs (fst st) root)
             (visit source target conflict_strategy root (nondirs (fst st) root) st))"
| "walk_dirs n source target conflict_strategy root [] st = Some st"
| "walk_dirs n source target conflict_strategy root (d # ds) st =
     (case walk n source target conflict_strategy (root @ [d]) st of
        None \<Rightarrow> None
      | Some st1 \<Rightarrow> walk_dirs n source target conflict_strategy root ds st1)"

text \<open>The removal of the \<^verbatim>\<open>overwrite\<close> branch at the top-level target (lines 62 to 71).\<close>

definition remove_target :: "filesystem \<Rightarrow> path \<Rightarrow> os_error + filesystem" where
  "remove_target fs p =
     (if is_symlink fs p then os_unlink fs p
      else if is_dir fs p then rmtree fs p
      else os_unlink fs p)"

text \<open>Lines 76 to 135: the walk starts with \<^verbatim>\<open>all_success = True\<close>.\<close>

definition walk_source ::
  "nat \<Rightarrow> filesystem \<Rightarrow> path \<Rightarrow> path \<Rightarrow> string \<Rightarrow> (bool \<times> filesystem) option" where
  "walk_source n fs source target_dir_path conflict_strategy =
     (case walk n source target_dir_path conflict_strategy source (fs, True) of
        None \<Rightarrow> None
      | Some (fs1, all_success) \<Rightarrow> Some (all_success, fs1))"

text \<open>Lines 45 to 135, with \<open>target_dir_path = link_path\<close>.\<close>

definition deploy_dir ::
  "nat \<Rightarrow> filesystem \<Rightarrow> path \<Rightarrow> path \<Rightarrow> string \<Rightarrow> (bool \<times> filesystem) option" where
  "deploy_dir n fs source target_dir_path conflict_strategy =
     (if path_exists fs target_dir_path then
        (let effective_dir_conflict_strategy =
               (if conflict_strategy = ''rename'' then ''fail'' else conflict_strategy)
         in if effective_dir_conflict_strategy = ''fail'' then Some (False, fs)
            else if effective_dir_conflict_strategy = ''skip'' then Some (True, fs)
            else if effective_dir_conflict_strategy = ''overwrite'' then
              (case remove_target fs target_dir_path of
                 Inl e \<Rightarrow> Some (False, fs)
               | Inr fs1 \<Rightarrow> walk_source n fs1 source target_dir_path conflict_strategy)
            else walk_source n fs source target_dir_path conflict_strategy)
      else walk_source n fs source target_dir_path conflict_strategy)"

text \<open>\<^verbatim>\<open>name if name else source.name\<close>: an empty name counts as none.\<close>

definition link_name_for :: "string option \<Rightarrow> path \<Rightarrow> string" where
  "link_name_for name source =
     (case name of
        None \<Rightarrow> name_of source
      | Some nm \<Rightarrow> if nm \<noteq> [] then nm else name_of source)"

text \<open>
  \<^verbatim>\<open>create_hardlink\<close>: the returned flag, and the file system it leaves. A source that
  is neither a directory nor a regular file is refused.
\<close>

definition create_hardlink ::
  "nat \<Rightarrow> filesystem \<Rightarrow> path \<Rightarrow> path \<Rightarrow> string option \<Rightarrow> string
     \<Rightarrow> (bool \<times> filesystem) option" where
  "create_hardlink n fs source destination_dir name conflict_strategy =
     (if \<not> path_exists fs source then Some (False, fs)
      else if \<not> is_dir fs destination_dir then Some (False, fs)
      else
        (let link_name = link_name_for name source;
             link_path = joinpath destination_dir link_name
         in if is_dir fs source then
              deploy_dir n fs source link_path conflict_strategy
            else if is_file fs source then
              Some (deploy_file fs source destination_dir link_path conflict_strategy)
            else Some (False, fs)))"

section \<open>The browser\<close>

text \<open>
  The state of \<^verbatim>\<open>LinkerTUI\<close> that its commands read and write: the current directory,
  the selection (a Python set of resolved paths), the cursor index (a Python integer) and
  the listed entries. The table widget and the hardlink annotations are display only. A
  command that starts a reload with \<^verbatim>\<open>asyncio.create_task\<close> is modelled with the reload
  done at once: the session runs one command at a time.
\<close>

datatype py_error = IndexError

text \<open>\<^verbatim>\<open>xs[i]\<close>: a negative index counts from the end, an index out of range raises.\<close>

definition py_get :: "'a list \<Rightarrow> int \<Rightarrow> py_error + 'a" where
  "py_get xs i =
     (if 0 \<le> i \<and> i < int (length xs) then Inr (xs ! nat i)
      else if i < 0 \<and> - int (length xs) \<le> i then Inr (xs ! nat (int (length xs) + i))
      else Inl IndexError)"

text \<open>\<^verbatim>\<open>str.lower()\<close> on the ASCII letters.\<close>

definition lower_char :: "char \<Rightarrow> char" where
  "lower_char c =
     (case map_of (zip ''ABCDEFGHIJKLMNOPQRSTUVWXYZ'' ''abcdefghijklmnopqrstuvwxyz'') c of
        Some l \<Rightarrow> l
      | None \<Rightarrow> c)"

text \<open>
  The entries \<^verbatim>\<open>load_directory\<close> shows (lines 108 to 114): \<^verbatim>\<open>iterdir\<close>, sorted with
  directories first and then by lower-cased name; the empty list when listing fails.
  Python's sort is stable, and so is \<^const>\<open>sort_key\<close>.
\<close>

definition listing :: "filesystem \<Rightarrow> path \<Rightarrow> path list" where
  "listing fs d =
     (case iterdir fs d of
        Inl e \<Rightarrow> []
      | Inr entries \<Rightarrow>
          sort_key (\<lambda>p. (\<not> is_dir fs p, map lower_char (name_of p))) entries)"

record tui =
  current_dir :: path
  selected :: "path set"
  cursor_index :: int
  items :: "path list"

text \<open>
  \<^verbatim>\<open>load_directory\<close>: the new directory, its entries, and the cursor rule of lines 156
  to 160.
\<close>

definition load_directory :: "filesystem \<Rightarrow> tui \<Rightarrow> path \<Rightarrow> int option \<Rightarrow> tui" where
  "load_directory fs s p preserve_cursor_index =
     (let entries = listing fs (resolve p);
          n = int (length entries);
          kept = (if cursor_index s \<ge> n \<or> cursor_index s < 0 then 0 else cursor_index s)
      in s\<lparr>current_dir := resolve p,
            items := entries,
            cursor_index :=
              (case preserve_cursor_index of
                 Some i \<Rightarrow> if 0 \<le> i \<and> i < n then i else kept
               | None \<Rightarrow> kept)\<rparr>)"

definition action_go_up :: "filesystem \<Rightarrow> tui \<Rightarrow> tui" where
  "action_go_up fs s =
     (if parent (current_dir s) \<noteq> current_dir s
      then load_directory fs s (parent (current_dir s)) None
      else s)"

definition action_toggle_select :: "filesystem \<Rightarrow> tui \<Rightarrow> py_error + tui" where
  "action_toggle_select fs s =
     (if items s = [] \<or> cursor_index s \<ge> int (length (items s)) then Inr s
      else
        (case py_get (items s) (cursor_index s) of
           Inl e \<Rightarrow> Inl e
         | Inr entry \<Rightarrow>
             (let entry_resolved = resolve entry;
                  sel = (if entry_resolved \<in> selected s
                         then selected s - {entry_resolved}
                         else insert entry_resolved (selected s));
                  cur = (if cursor_index s < int (length (items s)) - 1
                         then cursor_index s + 1 else cursor_index s);
                  s1 = s\<lparr>selected := sel, cursor_index := cur\<rparr>
              in Inr (load_directory fs s1 (current_dir s1) (Some cur)))))"

text \<open>
  \<^verbatim>\<open>action_delete_link\<close>. The loop of lines 258 to 261 decides \<^verbatim>\<open>only_hardlinks\<close>;
  \<^verbatim>\<open>stat\<close> may raise. The loop of lines 269 to 271 unlinks the entries one by one; when
  one fails (\<open>Inl\<close>) the entries before it stay removed. The third component of the
  result says whether the bell rang.
\<close>

fun only_hardlinks :: "filesystem \<Rightarrow> path list \<Rightarrow> os_error + bool" where
  "only_hardlinks fs [] = Inr True"
| "only_hardlinks fs (item # rest) =
     (if is_dir fs item then Inr False
      else
        (case st_nlink fs item of
           Inl e \<Rightarrow> Inl e
         | Inr k \<Rightarrow> if k \<le> 1 then Inr False else only_hardlinks fs rest))"

fun unlink_all :: "filesystem \<Rightarrow> path list \<Rightarrow> filesystem + filesystem" where
  "unlink_all fs [] = Inr fs"
| "unlink_all fs (item # rest) =
     (case os_unlink fs item of
        Inl e \<Rightarrow> Inl fs
      | Inr fs1 \<Rightarrow> unlink_all fs1 rest)"

definition index_after_delete :: "tui \<Rightarrow> int" where
  "index_after_delete s =
     (if cursor_index s \<ge> int (length (items s)) - 1 \<and> int (length (items s)) > 1
      then cursor_index s - 1 else cursor_index s)"

definition delete_directory :: "filesystem \<Rightarrow> tui \<Rightarrow> path \<Rightarrow> filesystem \<times> tui \<times> bool" where
  "delete_directory fs s entry_to_delete =
     (case iterdir fs entry_to_delete of
        Inl e \<Rightarrow> (fs, s, True)
      | Inr items_inside \<Rightarrow>
          (case only_hardlinks fs items_inside of
             Inl e \<Rightarrow> (fs, s, True)
           | Inr only \<Rightarrow>
               (let contains_items = (items_inside \<noteq> [])
                in if contains_items \<and> only then
                     (case unlink_all fs items_inside of
                        Inl fs1 \<Rightarrow> (fs1, s, True)
                      | Inr fs1 \<Rightarrow>
                          (case os_rmdir fs1 entry_to_delete of
                             Inl e \<Rightarrow> (fs1, s, True)
                           | Inr fs2 \<Rightarrow>
                               (fs2, load_directory fs2 s (current_dir s)
                                       (Some (index_after_delete s)), False)))
                   else if \<not> contains_items then
                     (case os_rmdir fs entry_to_delete of
                        Inl e \<Rightarrow> (fs, s, True)
                      | Inr fs1 \<Rightarrow>
                          (fs1, load_directory fs1 s (current_dir s)
                                  (Some (index_after_delete s)), False))
                   else (fs, s, False))))"

definition action_delete_link ::
  "filesystem \<Rightarrow> tui \<Rightarrow> py_error + (filesystem \<times> tui \<times> bool)" where
  "action_delete_link fs s =
     (if items s = [] \<or> cursor_index s \<ge> int (length (items s)) then Inr (fs, s, True)
      else
        (case py_get (items s) (cursor_index s) of
           Inl e \<Rightarrow> Inl e
         | Inr entry_to_delete \<Rightarrow>
             if is_file fs entry_to_delete then
               (case os_unlink fs entry_to_delete of
                  Inl e \<Rightarrow> Inr (fs, s, True)
                | Inr fs1 \<Rightarrow>
                    Inr (fs1, load_directory fs1 s (current_dir s)
                                (Some (index_after_delete s)), False))
             else if is_dir fs entry_to_delete then
               Inr (delete_directory fs s entry_to_delete)
             else Inr (fs, s, False)))"



section \<open>Statement vocabulary and example states\<close>

text \<open>
  A small tree used to run the theorems below on concrete input: a source directory
  \<^verbatim>\<open>/src\<close> with \<^verbatim>\<open>A/x.txt\<close>, \<^verbatim>\<open>A/sub/y.txt\<close> and \<^verbatim>\<open>b.txt\<close>, a destination
  \<^verbatim>\<open>/B\<close> that already holds \<^verbatim>\<open>b.txt\<close> and \<^verbatim>\<open>A\<close>, and an empty directory
  \<^verbatim>\<open>/empty\<close>.
\<close>

definition fs_demo :: filesystem where
  "fs_demo =
     \<lparr>tree = [([''src''], Dir), ([''src'', ''A''], Dir), ([''src'', ''A'', ''x.txt''], File 1),
              ([''src'', ''A'', ''sub''], Dir), ([''src'', ''A'', ''sub'', ''y.txt''], File 2),
              ([''src'', ''b.txt''], File 3), ([''B''], Dir), ([''B'', ''b.txt''], File 4),
              ([''B'', ''A''], Dir), ([''empty''], Dir)],
      links = (\<lambda>i. if i \<in> {1, 2, 3, 4} then 1 else 0)\<rparr>"

text \<open>A browser state in \<^verbatim>\<open>/src/A\<close> with the cursor on its second entry.\<close>

definition tui_demo :: tui where
  "tui_demo = \<lparr>current_dir = [''src'', ''A''], selected = {}, cursor_index = 1,
                items = [[''src'', ''A'', ''sub''], [''src'', ''A'', ''x.txt'']]\<rparr>"

text \<open>
  For the permission lookup: the rule an application entry carries when it has all three
  keys, whether one of its paths is a prefix of a string, whether it both matches and is
  complete, and the application entries of a configuration in iteration order (mounts
  first, applications within).
\<close>

definition complete_rule :: "app_info \<Rightarrow> permission_rule option" where
  "complete_rule info =
     (case (app_user info, app_group info, app_permissions info) of
        (Some u, Some g, Some m) \<Rightarrow> Some \<lparr>rule_user = u, rule_group = g, rule_permissions = m\<rparr>
      | _ \<Rightarrow> None)"

definition matches :: "string \<Rightarrow> app_info \<Rightarrow> bool" where
  "matches s info = (\<exists>x \<in> set (app_paths info). prefix x s)"

definition rule_applies :: "string \<Rightarrow> app_info \<Rightarrow> bool" where
  "rule_applies s info = (matches s info \<and> complete_rule info \<noteq> None)"

definition all_apps :: "config \<Rightarrow> app_info list" where
  "all_apps cfg = concat (map (\<lambda>m. map snd (snd m)) cfg)"

text \<open>
  A configuration whose first application matches \<^verbatim>\<open>/mnt/data\<close> but has no
  \<^verbatim>\<open>user\<close> key, and whose second application matches \<^verbatim>\<open>/mnt\<close> and is complete.
\<close>

definition cfg_demo :: config where
  "cfg_demo =
     [(''nas'',
       [(''films'', \<lparr>app_paths = [''/mnt/data''], app_user = None,
                     app_group = Some ''media'', app_permissions = Some ''775''\<rparr>),
        (''backup'', \<lparr>app_paths = [''/srv'', ''/mnt''], app_user = Some ''root'',
                      app_group = Some ''root'', app_permissions = Some ''750''\<rparr>)])]"

text \<open>
  A library \<^verbatim>\<open>/lib\<close> with a directory \<^verbatim>\<open>shell\<close> of two files that have a second link
  each, and a directory \<^verbatim>\<open>keep\<close> whose file has one link; the browser shows \<^verbatim>\<open>/lib\<close>
  with the cursor on \<^verbatim>\<open>shell\<close>.
\<close>

definition fs_shell :: filesystem where
  "fs_shell =
     \<lparr>tree = [([''lib''], Dir), ([''lib'', ''m.mkv''], File 7), ([''n.mkv''], File 8),
              ([''lib'', ''shell''], Dir), ([''lib'', ''shell'', ''m.mkv''], File 7),
              ([''lib'', ''shell'', ''n.mkv''], File 8), ([''lib'', ''keep''], Dir),
              ([''lib'', ''keep'', ''own.txt''], File 9)],
      links = (\<lambda>i. if i = 7 \<or> i = 8 then 2 else if i = 9 then 1 else 0)\<rparr>"

definition tui_shell :: tui where
  "tui_shell = \<lparr>current_dir = [''lib''], selected = {}, cursor_index = 1,
                 items = [[''lib'', ''keep''], [''lib'', ''shell''], [''lib'', ''m.mkv'']]\<rparr>"



text \<open>
  The \<open>k\<close>-th name both rename loops try for a name \<open>nm\<close> in a directory, and the
  situation of the claim: the name itself and its renamings 1 to \<open>N - 1\<close> exist.
\<close>

definition candidate :: "path \<Rightarrow> string \<Rightarrow> nat \<Rightarrow> path" where
  "candidate dir nm k = dir @ [renamed (stem_of nm) k (suffix_of nm)]"

definition collides :: "filesystem \<Rightarrow> path \<Rightarrow> string \<Rightarrow> nat \<Rightarrow> bool" where
  "collides fs dir nm N =
     (path_exists fs (dir @ [nm])
      \<and> list_all (\<lambda>k. path_exists fs (candidate dir nm k)) [1..<N])"

text \<open>
  Two destinations for \<^verbatim>\<open>/src/b.txt\<close>: one where \<^verbatim>\<open>b.txt\<close> and \<^verbatim>\<open>b (1).txt\<close> to
  \<^verbatim>\<open>b (998).txt\<close> exist (999 entries), one where \<^verbatim>\<open>b.txt\<close> and \<^verbatim>\<open>b (1).txt\<close> exist.
\<close>

definition fs_full :: filesystem where
  "fs_full =
     \<lparr>tree = [([''src''], Dir), ([''src'', ''b.txt''], File 3), ([''B''], Dir),
              ([''B'', ''b.txt''], File 4)]
             @ map (\<lambda>k. (candidate [''B''] ''b.txt'' k, File (4 + k))) [1..<999],
      links = (\<lambda>i. if 3 \<le> i \<and> i < 1003 then 1 else 0)\<rparr>"

definition fs_two :: filesystem where
  "fs_two =
     \<lparr>tree = [([''src''], Dir), ([''src'', ''b.txt''], File 3), ([''B''], Dir),
              ([''B'', ''b.txt''], File 4), ([''B'', ''b (1).txt''], File 5)],
      links = (\<lambda>i. if 3 \<le> i \<and> i < 6 then 1 else 0)\<rparr>"

text \<open>
  A state of the walk with its flag \<^verbatim>\<open>all_success\<close> weakened by \<open>b\<close>. The walk only
  ever clears the flag: running any part of it with the flag \<open>b\<close> gives the file system
  of the run with \<^verbatim>\<open>True\<close>, and that run's flag weakened by \<open>b\<close>.
\<close>

definition weaken :: "bool \<Rightarrow> filesystem \<times> bool \<Rightarrow> filesystem \<times> bool" where
  "weaken b st = (fst st, snd st \<and> b)"


section \<open>Conflicts at an existing destination\<close>

text \<open>
  C3. A file source whose destination path already exists: with strategy \<^verbatim>\<open>fail\<close> the
  call returns \<^verbatim>\<open>False\<close> and with \<^verbatim>\<open>skip\<close> it returns \<^verbatim>\<open>True\<close>, and in both cases
  the file system it leaves is the one it found.
\<close>

theorem file_conflict_fail_skip_unchanged:
  assumes src: "is_file fs source"
    and dst: "is_dir fs destination_dir"
    and ex: "path_exists fs (joinpath destination_dir (link_name_for name source))"
  shows "create_hardlink n fs source destination_dir name ''fail'' = Some (False, fs)
       \<and> create_hardlink n fs source destination_dir name ''skip'' = Some (True, fs)"
proof -
  from src have e: "path_exists fs source" and nd: "\<not> is_dir fs source"
    by (auto simp: is_file_def path_exists_def is_dir_def split: option.splits node.splits)
  from e nd src dst ex show ?thesis
    by (simp add: create_hardlink_def deploy_file_def Let_def)
qed

text \<open>C3 at \<^verbatim>\<open>/src/b.txt\<close> deployed into \<^verbatim>\<open>/B\<close>, where \<^verbatim>\<open>/B/b.txt\<close> exists.\<close>

theorem file_conflict_fail_skip_unchanged_witness:
  "is_file fs_demo [''src'', ''b.txt''] \<and> is_dir fs_demo [''B'']
   \<and> path_exists fs_demo (joinpath [''B''] (link_name_for None [''src'', ''b.txt'']))
   \<and> create_hardlink 0 fs_demo [''src'', ''b.txt''] [''B''] None ''fail'' = Some (False, fs_demo)
   \<and> create_hardlink 0 fs_demo [''src'', ''b.txt''] [''B''] None ''skip'' = Some (True, fs_demo)"
proof -
  have a: "is_file fs_demo [''src'', ''b.txt'']"
    by (simp add: is_file_def node_at_def fs_demo_def)
  have b: "is_dir fs_demo [''B'']"
    by (simp add: is_dir_def node_at_def fs_demo_def)
  have c: "path_exists fs_demo (joinpath [''B''] (link_name_for None [''src'', ''b.txt'']))"
    by (simp add: path_exists_def node_at_def fs_demo_def joinpath_def link_name_for_def name_of_def)
  from file_conflict_fail_skip_unchanged [OF a b c, of 0] a b c show ?thesis by simp
qed

text \<open>
  C2. A directory source whose top-level target already exists: \<^verbatim>\<open>rename\<close> gives what
  \<^verbatim>\<open>fail\<close> gives, \<^verbatim>\<open>fail\<close> returns \<^verbatim>\<open>False\<close> and \<^verbatim>\<open>skip\<close> returns \<^verbatim>\<open>True\<close>, each
  leaving the file system as it was: nothing is created, whatever the depth bound.
\<close>

theorem dir_conflict_top_level:
  assumes src: "is_dir fs source"
    and dst: "is_dir fs destination_dir"
    and ex: "path_exists fs (joinpath destination_dir (link_name_for name source))"
  shows "create_hardlink n fs source destination_dir name ''rename''
           = create_hardlink n fs source destination_dir name ''fail''
       \<and> create_hardlink n fs source destination_dir name ''fail'' = Some (False, fs)
       \<and> create_hardlink n fs source destination_dir name ''skip'' = Some (True, fs)"
proof -
  from src have e: "path_exists fs source"
    by (simp add: path_exists_def is_dir_def)
  from e src dst ex show ?thesis
    by (simp add: create_hardlink_def deploy_dir_def Let_def)
qed

text \<open>C2 at \<^verbatim>\<open>/src/A\<close> deployed into \<^verbatim>\<open>/B\<close>, where \<^verbatim>\<open>/B/A\<close> exists.\<close>

theorem dir_conflict_top_level_witness:
  "is_dir fs_demo [''src'', ''A''] \<and> is_dir fs_demo [''B'']
   \<and> path_exists fs_demo (joinpath [''B''] (link_name_for None [''src'', ''A'']))
   \<and> create_hardlink 3 fs_demo [''src'', ''A''] [''B''] None ''rename''
         = create_hardlink 3 fs_demo [''src'', ''A''] [''B''] None ''fail''
   \<and> create_hardlink 3 fs_demo [''src'', ''A''] [''B''] None ''fail'' = Some (False, fs_demo)
   \<and> create_hardlink 3 fs_demo [''src'', ''A''] [''B''] None ''skip'' = Some (True, fs_demo)"
proof -
  have a: "is_dir fs_demo [''src'', ''A'']"
    by (simp add: is_dir_def node_at_def fs_demo_def)
  have b: "is_dir fs_demo [''B'']"
    by (simp add: is_dir_def node_at_def fs_demo_def)
  have c: "path_exists fs_demo (joinpath [''B''] (link_name_for None [''src'', ''A'']))"
    by (simp add: path_exists_def node_at_def fs_demo_def joinpath_def link_name_for_def name_of_def)
  from dir_conflict_top_level [OF a b c, of 3] a b c show ?thesis by simp
qed

section \<open>The browser's cursor and selection\<close>

text \<open>The listings of three directories of the example tree.\<close>

lemma listing_demo_src:
  "listing fs_demo [''src''] = [[''src'', ''A''], [''src'', ''b.txt'']]"
  by (simp add: listing_def iterdir_def is_dir_def node_at_def fs_demo_def children_def
      name_of_def)

lemma listing_demo_A:
  "listing fs_demo [''src'', ''A''] = [[''src'', ''A'', ''sub''], [''src'', ''A'', ''x.txt'']]"
  by (simp add: listing_def iterdir_def is_dir_def node_at_def fs_demo_def children_def
      name_of_def)

lemma listing_demo_empty: "listing fs_demo [''empty''] = []"
  by (simp add: listing_def iterdir_def is_dir_def node_at_def fs_demo_def children_def)

text \<open>
  C7, as stated, fails on an empty listing: the reload of the empty directory
  \<^verbatim>\<open>/empty\<close> leaves the cursor at 0 with no entry, and no index lies in \<open>[0, 0)\<close>.
\<close>

theorem cursor_empty_listing_counterexample:
  "is_dir fs_demo [''empty'']
   \<and> items (load_directory fs_demo tui_demo [''empty''] None) = []
   \<and> \<not> (0 \<le> cursor_index (load_directory fs_demo tui_demo [''empty''] None)
        \<and> cursor_index (load_directory fs_demo tui_demo [''empty''] None)
            < int (length (items (load_directory fs_demo tui_demo [''empty''] None))))"
proof -
  have d: "is_dir fs_demo [''empty'']"
    by (simp add: is_dir_def node_at_def fs_demo_def)
  have e: "items (load_directory fs_demo tui_demo [''empty''] None) = []"
    by (simp add: load_directory_def resolve_def listing_demo_empty Let_def)
  from d e show ?thesis by simp
qed

text \<open>
  C7, amended. After every reload, for any earlier cursor, any preserve request and any
  listing, the cursor index is at least 0 and below \<open>max 1 (len entries)\<close>: it is a
  valid index whenever there is an entry, and it is 0 on the empty listing.
\<close>

theorem cursor_after_reload:
  "0 \<le> cursor_index (load_directory fs s p preserve)
   \<and> cursor_index (load_directory fs s p preserve)
        < max 1 (int (length (items (load_directory fs s p preserve))))
   \<and> (items (load_directory fs s p preserve) = []
        \<longrightarrow> cursor_index (load_directory fs s p preserve) = 0)"
  by (auto simp: load_directory_def Let_def split: option.splits)

text \<open>C7 at a reload of \<^verbatim>\<open>/src\<close> (two entries) and of \<^verbatim>\<open>/empty\<close>, asking for index 7.\<close>

theorem cursor_after_reload_witness:
  "0 \<le> cursor_index (load_directory fs_demo tui_demo [''src''] (Some 7))
   \<and> cursor_index (load_directory fs_demo tui_demo [''src''] (Some 7)) < 2
   \<and> length (items (load_directory fs_demo tui_demo [''src''] (Some 7))) = 2
   \<and> cursor_index (load_directory fs_demo tui_demo [''empty''] (Some 7)) = 0
   \<and> items (load_directory fs_demo tui_demo [''empty''] (Some 7)) = []"
proof -
  have l: "items (load_directory fs_demo tui_demo [''src''] (Some 7)) = [[''src'', ''A''], [''src'', ''b.txt'']]"
    by (simp add: load_directory_def resolve_def listing_demo_src Let_def)
  have e: "items (load_directory fs_demo tui_demo [''empty''] (Some 7)) = []"
    by (simp add: load_directory_def resolve_def listing_demo_empty Let_def)
  from cursor_after_reload [of fs_demo tui_demo "[''src'']" "Some 7"]
       cursor_after_reload [of fs_demo tui_demo "[''empty'']" "Some 7"] l e
  show ?thesis by simp
qed

text \<open>
  C8, as stated, fails: from \<^verbatim>\<open>/src/A\<close> with the cursor at 1, going up shows
  \<^verbatim>\<open>/src\<close>, whose listing has two entries, and the cursor stays at 1.
\<close>

theorem go_up_keeps_cursor_counterexample:
  "current_dir tui_demo \<noteq> []
   \<and> current_dir (action_go_up fs_demo tui_demo) = parent (current_dir tui_demo)
   \<and> cursor_index (action_go_up fs_demo tui_demo) \<noteq> 0"
  by (simp add: action_go_up_def load_directory_def resolve_def parent_def tui_demo_def
      listing_demo_src Let_def)

text \<open>
  C8, amended. At the root the command changes nothing. Elsewhere the current directory
  becomes its parent and the entries become the parent's listing; the cursor index is
  kept when it is a valid index of that listing and is 0 otherwise. The selection is not
  touched.
\<close>

theorem go_up_effect:
  "(current_dir s = [] \<longrightarrow> action_go_up fs s = s)
   \<and> (current_dir s \<noteq> [] \<longrightarrow>
        action_go_up fs s =
          s\<lparr>current_dir := parent (current_dir s),
            items := listing fs (parent (current_dir s)),
            cursor_index :=
              (if 0 \<le> cursor_index s
                  \<and> cursor_index s < int (length (listing fs (parent (current_dir s))))
               then cursor_index s else 0)\<rparr>)"
proof -
  have "current_dir s \<noteq> [] \<Longrightarrow> butlast (current_dir s) \<noteq> current_dir s"
    by (metis length_butlast diff_less length_greater_0_conv less_numeral_extra(1) nat_neq_iff)
  then show ?thesis
    by (auto simp: action_go_up_def load_directory_def resolve_def parent_def Let_def)
qed

text \<open>C8 at the root, at \<^verbatim>\<open>/src/A\<close> with cursor 1 (kept), and with cursor 5 (reset).\<close>

theorem go_up_effect_witness:
  "action_go_up fs_demo (tui_demo\<lparr>current_dir := []\<rparr>) = tui_demo\<lparr>current_dir := []\<rparr>
   \<and> action_go_up fs_demo tui_demo =
        \<lparr>current_dir = [''src''], selected = {}, cursor_index = 1,
         items = [[''src'', ''A''], [''src'', ''b.txt'']]\<rparr>
   \<and> action_go_up fs_demo (tui_demo\<lparr>cursor_index := 5\<rparr>) =
        \<lparr>current_dir = [''src''], selected = {}, cursor_index = 0,
         items = [[''src'', ''A''], [''src'', ''b.txt'']]\<rparr>"
  using go_up_effect [of "tui_demo\<lparr>current_dir := []\<rparr>" fs_demo]
        go_up_effect [of tui_demo fs_demo]
        go_up_effect [of "tui_demo\<lparr>cursor_index := 5\<rparr>" fs_demo]
  by (simp add: tui_demo_def parent_def listing_demo_src)

text \<open>What one \<^verbatim>\<open>action_toggle_select\<close> does at a cursor that is in range.\<close>

lemma toggle_select_fields:
  assumes ne: "items s \<noteq> []"
    and lo: "0 \<le> cursor_index s"
    and hi: "cursor_index s < int (length (items s))"
  shows "\<exists>s1. action_toggle_select fs s = Inr s1
           \<and> selected s1 =
                (if resolve (items s ! nat (cursor_index s)) \<in> selected s
                 then selected s - {resolve (items s ! nat (cursor_index s))}
                 else insert (resolve (items s ! nat (cursor_index s))) (selected s))
           \<and> items s1 = listing fs (current_dir s)
           \<and> current_dir s1 = current_dir s"
proof -
  have get: "py_get (items s) (cursor_index s) = Inr (items s ! nat (cursor_index s))"
    using lo hi by (simp add: py_get_def)
  show ?thesis
    using ne hi get
    by (simp add: action_toggle_select_def load_directory_def resolve_def Let_def)
qed

text \<open>
  C10. On a non-empty listing with the cursor in range, and a directory whose listing is
  the one shown: the command succeeds and flips the membership of the entry's resolved
  path; applied again with the cursor put back on the same entry, it succeeds again and
  the selection is the original set.
\<close>

theorem toggle_twice_restores_selection:
  assumes ne: "items s \<noteq> []"
    and lo: "0 \<le> cursor_index s"
    and hi: "cursor_index s < int (length (items s))"
    and same: "listing fs (current_dir s) = items s"
  shows "\<exists>s1 s2. action_toggle_select fs s = Inr s1
           \<and> action_toggle_select fs (s1\<lparr>cursor_index := cursor_index s\<rparr>) = Inr s2
           \<and> (resolve (items s ! nat (cursor_index s)) \<in> selected s1
                \<longleftrightarrow> resolve (items s ! nat (cursor_index s)) \<notin> selected s)
           \<and> selected s2 = selected s"
proof -
  let ?e = "resolve (items s ! nat (cursor_index s))"
  from toggle_select_fields [OF ne lo hi, of fs] obtain s1
    where t1: "action_toggle_select fs s = Inr s1"
      and sel1: "selected s1 = (if ?e \<in> selected s then selected s - {?e}
                                else insert ?e (selected s))"
      and it1: "items s1 = listing fs (current_dir s)"
      and cd1: "current_dir s1 = current_dir s" by blast
  let ?s1 = "s1\<lparr>cursor_index := cursor_index s\<rparr>"
  have it: "items ?s1 = items s" using it1 same by simp
  have ne': "items ?s1 \<noteq> []" using it ne by simp
  have lo': "0 \<le> cursor_index ?s1" using lo by simp
  have hi': "cursor_index ?s1 < int (length (items ?s1))" using hi it by simp
  from toggle_select_fields [OF ne' lo' hi', of fs] obtain s2
    where t2: "action_toggle_select fs ?s1 = Inr s2"
      and sel2: "selected s2 =
                   (if resolve (items ?s1 ! nat (cursor_index ?s1)) \<in> selected ?s1
                    then selected ?s1 - {resolve (items ?s1 ! nat (cursor_index ?s1))}
                    else insert (resolve (items ?s1 ! nat (cursor_index ?s1))) (selected ?s1))"
    by blast
  have e: "resolve (items ?s1 ! nat (cursor_index ?s1)) = ?e" using it by simp
  have flip: "?e \<in> selected s1 \<longleftrightarrow> ?e \<notin> selected s" using sel1 by auto
  have restored: "selected s2 = selected s"
    using sel2 sel1 unfolding e by (auto split: if_splits)
  from t1 t2 flip restored show ?thesis by blast
qed

text \<open>C10 in \<^verbatim>\<open>/src/A\<close> at \<^verbatim>\<open>x.txt\<close>: selected after one command, not after two.\<close>

theorem toggle_twice_restores_selection_witness:
  "items tui_demo \<noteq> [] \<and> 0 \<le> cursor_index tui_demo
   \<and> cursor_index tui_demo < int (length (items tui_demo))
   \<and> listing fs_demo (current_dir tui_demo) = items tui_demo
   \<and> (\<exists>s1 s2. action_toggle_select fs_demo tui_demo = Inr s1
           \<and> action_toggle_select fs_demo (s1\<lparr>cursor_index := cursor_index tui_demo\<rparr>) = Inr s2
           \<and> selected s1 = {[''src'', ''A'', ''x.txt'']}
           \<and> selected s2 = selected tui_demo)"
proof -
  have a: "items tui_demo \<noteq> []" and b: "0 \<le> cursor_index tui_demo"
    and c: "cursor_index tui_demo < int (length (items tui_demo))"
    by (simp_all add: tui_demo_def)
  have d: "listing fs_demo (current_dir tui_demo) = items tui_demo"
    by (simp add: tui_demo_def listing_demo_A)
  from toggle_twice_restores_selection [OF a b c d]
  obtain s1 s2 where t1: "action_toggle_select fs_demo tui_demo = Inr s1"
    and t2: "action_toggle_select fs_demo (s1\<lparr>cursor_index := cursor_index tui_demo\<rparr>) = Inr s2"
    and s2: "selected s2 = selected tui_demo" by blast
  have "action_toggle_select fs_demo tui_demo
          = Inr (load_directory fs_demo
                  (tui_demo\<lparr>selected := {[''src'', ''A'', ''x.txt'']}, cursor_index := 1\<rparr>)
                  [''src'', ''A''] (Some 1))"
    by (simp add: action_toggle_select_def py_get_def tui_demo_def resolve_def Let_def
        del: load_directory_def)
  with t1 have "selected s1 = {[''src'', ''A'', ''x.txt'']}"
    by (auto simp: load_directory_def Let_def)
  with a b c d t1 t2 s2 show ?thesis by blast
qed

section \<open>Permission-rule lookup\<close>

text \<open>Each of the three loops finds the first entry that matches and is complete.\<close>

lemma match_paths_eq:
  "match_paths s info ps = (if \<exists>x \<in> set ps. prefix x s then complete_rule info else None)"
  by (induction ps) (auto simp: complete_rule_def split: option.splits)

lemma find_app:
  "find P (xs @ ys) = (case find P xs of None \<Rightarrow> find P ys | Some x \<Rightarrow> Some x)"
  by (induction xs) auto

lemma match_apps_eq:
  "match_apps s apps =
     (case find (rule_applies s) (map snd apps) of
        None \<Rightarrow> None
      | Some info \<Rightarrow> complete_rule info)"
  by (induction apps)
    (auto simp: match_paths_eq matches_def rule_applies_def split: option.splits)

lemma find_holds: "find P xs = Some x \<Longrightarrow> P x"
  by (induction xs) (auto split: if_splits)

lemma match_mounts_eq:
  "match_mounts s cfg =
     (case find (rule_applies s) (all_apps cfg) of
        None \<Rightarrow> None
      | Some info \<Rightarrow> complete_rule info)"
proof (induction cfg)
  case Nil
  then show ?case by (simp add: all_apps_def)
next
  case (Cons m cfg)
  let ?P = "rule_applies s"
  obtain mount apps where m: "m = (mount, apps)" by (cases m)
  have a: "all_apps ((mount, apps) # cfg) = map snd apps @ all_apps cfg"
    by (simp add: all_apps_def)
  show ?case
  proof (cases "find ?P (map snd apps)")
    case None
    then have "match_apps s apps = None" by (simp add: match_apps_eq)
    with None Cons.IH show ?thesis by (simp add: m a find_app)
  next
    case (Some info)
    then have "complete_rule info \<noteq> None"
      by (auto dest: find_holds simp: rule_applies_def)
    then obtain r where r: "complete_rule info = Some r" by auto
    with Some have "match_apps s apps = Some r" by (simp add: match_apps_eq)
    with Some r show ?thesis by (simp add: m a find_app)
  qed
qed

text \<open>
  C9, amended. Without a configuration there is no rule. Otherwise the lookup compares
  \<^verbatim>\<open>str(dest_path)\<close> with each path of each application by string prefix, and returns
  the rule of the first application, in iteration order, one of whose paths is a prefix
  of that string and which has \<^verbatim>\<open>user\<close>, \<^verbatim>\<open>group\<close> and \<^verbatim>\<open>permissions\<close>; a matching
  application that lacks one of them is passed over.
\<close>

theorem first_complete_prefix_rule:
  "get_app_permissions_for_path None p = None
   \<and> get_app_permissions_for_path (Some cfg) p =
       (case find (rule_applies (path_str p)) (all_apps cfg) of
          None \<Rightarrow> None
        | Some info \<Rightarrow> complete_rule info)"
  by (simp add: get_app_permissions_for_path_def match_mounts_eq)

text \<open>
  C9, as stated, fails: for \<^verbatim>\<open>/mnt/data/x\<close> the first application of the example
  configuration matches by prefix, and the rule returned is the second application's.
\<close>

theorem first_matching_rule_counterexample:
  "path_str [''mnt'', ''data'', ''x''] = ''/mnt/data/x''
   \<and> prefix ''/mnt/data'' (path_str [''mnt'', ''data'', ''x''])
   \<and> get_app_permissions_for_path (Some cfg_demo) [''mnt'', ''data'', ''x'']
       = Some \<lparr>rule_user = ''root'', rule_group = ''root'', rule_permissions = ''750''\<rparr>"
  by (simp add: get_app_permissions_for_path_def cfg_demo_def path_str_def)

text \<open>
  C9 at \<^verbatim>\<open>/mnt/data2/x\<close> against the prefix \<^verbatim>\<open>/mnt/data\<close> (a match by characters,
  not by components), and at the example configuration.
\<close>

theorem first_complete_prefix_rule_witness:
  "path_str [''mnt'', ''data2'', ''x''] = ''/mnt/data2/x''
   \<and> matches (path_str [''mnt'', ''data2'', ''x''])
        \<lparr>app_paths = [''/mnt/data''], app_user = Some ''u'', app_group = Some ''g'',
         app_permissions = Some ''775''\<rparr>
   \<and> get_app_permissions_for_path
        (Some [(''nas'', [(''films'', \<lparr>app_paths = [''/mnt/data''], app_user = Some ''u'',
                          app_group = Some ''g'', app_permissions = Some ''775''\<rparr>)])])
        [''mnt'', ''data2'', ''x'']
       = Some \<lparr>rule_user = ''u'', rule_group = ''g'', rule_permissions = ''775''\<rparr>
   \<and> get_app_permissions_for_path (Some cfg_demo) [''mnt'', ''data'', ''x'']
       = Some \<lparr>rule_user = ''root'', rule_group = ''root'', rule_permissions = ''750''\<rparr>"
  using first_complete_prefix_rule
    [of "[''mnt'', ''data2'', ''x'']"
        "[(''nas'', [(''films'', \<lparr>app_paths = [''/mnt/data''], app_user = Some ''u'',
                          app_group = Some ''g'', app_permissions = Some ''775''\<rparr>)])]"]
    first_complete_prefix_rule [of "[''mnt'', ''data'', ''x'']" cfg_demo]
  by (simp add: path_str_def matches_def rule_applies_def all_apps_def complete_rule_def
      cfg_demo_def)

section \<open>Deleting a directory\<close>

text \<open>Lookups after entries were removed from the tree.\<close>

lemma map_of_remove_entry:
  "map_of (remove_entry k t) p = (if p = k then None else map_of t p)"
  by (induction t) (auto simp: remove_entry_def)

lemma map_of_filter_notin:
  "map_of (filter (\<lambda>e. fst e \<notin> A) t) p = (if p \<in> A then None else map_of t p)"
  by (induction t) auto

text \<open>Unlinking a list of distinct regular files succeeds and removes exactly their names.\<close>

lemma unlink_all_ok:
  "distinct ks \<Longrightarrow> [] \<notin> set ks \<Longrightarrow> \<forall>k \<in> set ks. is_file fs k \<Longrightarrow>
     \<exists>fs'. unlink_all fs ks = Inr fs' \<and> tree fs' = filter (\<lambda>e. fst e \<notin> set ks) (tree fs)"
proof (induction ks arbitrary: fs)
  case Nil
  then show ?case by simp
next
  case (Cons k ks)
  from Cons.prems obtain i where i: "node_at fs k = Some (File i)"
    by (auto simp: is_file_def split: option.splits node.splits)
  let ?fs1 = "fs\<lparr>tree := remove_entry k (tree fs), links := (links fs)(i := links fs i - 1)\<rparr>"
  have u: "os_unlink fs k = Inr ?fs1" using i by (simp add: os_unlink_def)
  have "\<forall>k' \<in> set ks. is_file ?fs1 k'"
  proof
    fix k' assume k': "k' \<in> set ks"
    with Cons.prems have "k' \<noteq> k" "k' \<noteq> []" "is_file fs k'" by auto
    then show "is_file ?fs1 k'"
      by (simp add: is_file_def node_at_def map_of_remove_entry)
  qed
  with Cons.IH [of ?fs1] Cons.prems obtain fs' where
    r: "unlink_all ?fs1 ks = Inr fs'"
    and t: "tree fs' = filter (\<lambda>e. fst e \<notin> set ks) (tree ?fs1)" by auto
  have "filter (\<lambda>e. fst e \<notin> set ks) (remove_entry k (tree fs))
          = filter (\<lambda>e. fst e \<notin> set (k # ks)) (tree fs)"
    by (auto simp: remove_entry_def intro: filter_cong)
  with u r t show ?case by simp
qed

text \<open>The entries of a directory are names in the tree, directly below it.\<close>

lemma children_nonempty_paths: "[] \<notin> set (children fs d)"
  by (simp add: children_def)

lemma children_parent: "k \<in> set (children fs d) \<Longrightarrow> butlast k = d \<and> k \<noteq> []"
  by (simp add: children_def)

lemma children_exist: "k \<in> set (children fs d) \<Longrightarrow> node_at fs k \<noteq> None"
  by (auto simp: children_def node_at_def map_of_eq_None_iff)

text \<open>What the loop of lines 258 to 261 decides for the entries of a directory.\<close>

lemma only_hardlinks_all:
  "\<forall>k \<in> set ks. \<not> is_dir fs k \<and> (\<exists>m. st_nlink fs k = Inr m \<and> 1 < m)
     \<Longrightarrow> only_hardlinks fs ks = Inr True"
  by (induction ks) auto

lemma only_hardlinks_some:
  "\<forall>k \<in> set ks. node_at fs k \<noteq> None \<Longrightarrow>
   \<exists>k \<in> set ks. is_dir fs k \<or> (\<exists>m. st_nlink fs k = Inr m \<and> m \<le> 1)
     \<Longrightarrow> only_hardlinks fs ks = Inr False"
proof (induction ks)
  case Nil
  then show ?case by simp
next
  case (Cons k ks)
  from Cons.prems(1) obtain nd where nd: "node_at fs k = Some nd" by auto
  show ?case
  proof (cases "is_dir fs k")
    case True
    then show ?thesis by simp
  next
    case False
    with nd obtain i where i: "node_at fs k = Some (File i)"
      by (cases nd) (auto simp: is_dir_def)
    then have n: "st_nlink fs k = Inr (links fs i)" by (simp add: st_nlink_def)
    show ?thesis
    proof (cases "links fs i \<le> 1")
      case True
      with False n show ?thesis by simp
    next
      case big: False
      with False n Cons.prems have "\<exists>k \<in> set ks. is_dir fs k \<or> (\<exists>m. st_nlink fs k = Inr m \<and> m \<le> 1)"
        by auto
      with Cons.IH Cons.prems(1) have "only_hardlinks fs ks = Inr False" by simp
      with False n big show ?thesis by simp
    qed
  qed
qed

lemma butlast_self: "butlast k = k \<Longrightarrow> k = []"
  by (metis butlast_snoc rev_exhaust self_append_conv snoc_eq_iff_butlast)

lemma children_after_unlink:
  assumes "tree fs1 = filter (\<lambda>e. fst e \<notin> set (children fs d)) (tree fs)"
  shows "children fs1 d = []"
proof -
  have "\<And>p. p \<in> fst ` set (tree fs) \<Longrightarrow> p \<noteq> [] \<Longrightarrow> butlast p = d
          \<Longrightarrow> p \<in> set (children fs d)"
    by (auto simp: children_def)
  then show ?thesis
    unfolding children_def assms by (auto simp: filter_empty_conv)
qed

text \<open>
  C4. The delete command with the cursor on a directory (not the root). If the directory
  is non-empty, holds no sub-directory, and every file in it has a link count above 1,
  the command succeeds without a bell; afterwards neither the directory nor any of its
  entries exists, and every other path is as before. If it holds a sub-directory or a
  file with link count at most 1, file system and browser state are returned unchanged.
\<close>

theorem delete_directory_entry:
  assumes ne: "items s \<noteq> []"
    and lo: "0 \<le> cursor_index s"
    and hi: "cursor_index s < int (length (items s))"
    and ent: "entry = items s ! nat (cursor_index s)"
    and dir: "is_dir fs entry"
    and nr: "entry \<noteq> []"
  shows "(children fs entry \<noteq> []
            \<and> (\<forall>k \<in> set (children fs entry).
                  \<not> is_dir fs k \<and> (\<exists>m. st_nlink fs k = Inr m \<and> 1 < m))
          \<longrightarrow> (\<exists>fs' s'. action_delete_link fs s = Inr (fs', s', False)
                 \<and> \<not> path_exists fs' entry
                 \<and> (\<forall>k \<in> set (children fs entry). \<not> path_exists fs' k)
                 \<and> (\<forall>p. p \<noteq> entry \<and> p \<notin> set (children fs entry)
                        \<longrightarrow> node_at fs' p = node_at fs p)))
       \<and> ((\<exists>k \<in> set (children fs entry).
               is_dir fs k \<or> (\<exists>m. st_nlink fs k = Inr m \<and> m \<le> 1))
          \<longrightarrow> action_delete_link fs s = Inr (fs, s, False))"
proof -
  let ?ks = "children fs entry"
  have get: "py_get (items s) (cursor_index s) = Inr entry"
    using lo hi ent by (simp add: py_get_def)
  have nf: "\<not> is_file fs entry"
    using dir by (simp add: is_file_def is_dir_def)
  have it: "iterdir fs entry = Inr ?ks"
    using dir by (simp add: iterdir_def)
  have act: "action_delete_link fs s = Inr (delete_directory fs s entry)"
    using ne hi get nf dir by (simp add: action_delete_link_def)
  have refuse: "action_delete_link fs s = Inr (fs, s, False)"
    if bad: "\<exists>k \<in> set ?ks. is_dir fs k \<or> (\<exists>m. st_nlink fs k = Inr m \<and> m \<le> 1)"
  proof -
    have "\<forall>k \<in> set ?ks. node_at fs k \<noteq> None" by (auto dest: children_exist)
    from only_hardlinks_some [OF this bad] have oh: "only_hardlinks fs ?ks = Inr False" .
    from bad have "?ks \<noteq> []" by auto
    with oh it act show ?thesis by (simp add: delete_directory_def Let_def)
  qed
  have collapse: "\<exists>fs' s'. action_delete_link fs s = Inr (fs', s', False)
                 \<and> \<not> path_exists fs' entry
                 \<and> (\<forall>k \<in> set ?ks. \<not> path_exists fs' k)
                 \<and> (\<forall>p. p \<noteq> entry \<and> p \<notin> set ?ks \<longrightarrow> node_at fs' p = node_at fs p)"
    if full: "?ks \<noteq> []"
      and good: "\<forall>k \<in> set ?ks. \<not> is_dir fs k \<and> (\<exists>m. st_nlink fs k = Inr m \<and> 1 < m)"
  proof -
    from only_hardlinks_all [OF good] have oh: "only_hardlinks fs ?ks = Inr True" .
    have files: "\<forall>k \<in> set ?ks. is_file fs k"
    proof
      fix k assume k: "k \<in> set ?ks"
      with good have "\<not> is_dir fs k" by simp
      moreover from k have "node_at fs k \<noteq> None" by (rule children_exist)
      ultimately show "is_file fs k"
        by (auto simp: is_file_def is_dir_def split: option.splits node.splits)
    qed
    have "distinct ?ks" by (simp add: children_def)
    from unlink_all_ok [OF this children_nonempty_paths files] obtain fs1 where
      ua: "unlink_all fs ?ks = Inr fs1"
      and t1: "tree fs1 = filter (\<lambda>e. fst e \<notin> set ?ks) (tree fs)" by blast
    have notkid: "entry \<notin> set ?ks"
      using nr by (auto dest!: children_parent dest: butlast_self)
    have n1: "\<And>p. node_at fs1 p = (if p \<in> set ?ks then None else node_at fs p)"
      using children_nonempty_paths [of fs entry]
      by (auto simp: node_at_def t1 map_of_filter_notin)
    have e1: "path_exists fs1 entry" and d1: "is_dir fs1 entry"
      using dir notkid by (simp_all add: path_exists_def is_dir_def n1)
    have c1: "children fs1 entry = []" using t1 by (rule children_after_unlink)
    let ?fs2 = "fs1\<lparr>tree := remove_entry entry (tree fs1)\<rparr>"
    have rd: "os_rmdir fs1 entry = Inr ?fs2"
      using e1 d1 c1 nr by (simp add: os_rmdir_def)
    have "\<And>p. node_at ?fs2 p = (if p = entry then None else node_at fs1 p)"
      using nr by (auto simp: node_at_def map_of_remove_entry)
    then have n2: "\<And>p. node_at ?fs2 p
                       = (if p = entry \<or> p \<in> set ?ks then None else node_at fs p)"
      by (simp add: n1)
    let ?s' = "load_directory ?fs2 s (current_dir s) (Some (index_after_delete s))"
    have "action_delete_link fs s = Inr (?fs2, ?s', False)"
      using act it oh ua rd full by (simp add: delete_directory_def Let_def)
    moreover have "\<not> path_exists ?fs2 entry" by (simp add: path_exists_def n2)
    moreover have "\<forall>k \<in> set ?ks. \<not> path_exists ?fs2 k" by (simp add: path_exists_def n2)
    moreover have "\<forall>p. p \<noteq> entry \<and> p \<notin> set ?ks \<longrightarrow> node_at ?fs2 p = node_at fs p"
      by (simp add: n2)
    ultimately show ?thesis by blast
  qed
  from refuse collapse show ?thesis by blast
qed

lemma children_shell:
  "children fs_shell [''lib'', ''shell'']
     = [[''lib'', ''shell'', ''m.mkv''], [''lib'', ''shell'', ''n.mkv'']]"
  by (simp add: children_def fs_shell_def)

lemma children_keep:
  "children fs_shell [''lib'', ''keep''] = [[''lib'', ''keep'', ''own.txt'']]"
  by (simp add: children_def fs_shell_def)

lemma listing_shell: "listing fs_shell (current_dir tui_shell) = items tui_shell"
  by (simp add: listing_def iterdir_def is_dir_def node_at_def fs_shell_def children_def
      name_of_def tui_shell_def lower_char_def less_char_def less_eq_char_def)

text \<open>C4 at \<^verbatim>\<open>/lib/shell\<close> (collapsed) and at \<^verbatim>\<open>/lib/keep\<close> (refused).\<close>

theorem delete_directory_entry_witness:
  "listing fs_shell (current_dir tui_shell) = items tui_shell
   \<and> is_dir fs_shell [''lib'', ''shell''] \<and> is_dir fs_shell [''lib'', ''keep'']
   \<and> st_nlink fs_shell [''lib'', ''shell'', ''m.mkv''] = Inr 2
   \<and> st_nlink fs_shell [''lib'', ''shell'', ''n.mkv''] = Inr 2
   \<and> st_nlink fs_shell [''lib'', ''keep'', ''own.txt''] = Inr 1
   \<and> (\<exists>fs' s'. action_delete_link fs_shell tui_shell = Inr (fs', s', False)
         \<and> \<not> path_exists fs' [''lib'', ''shell'']
         \<and> \<not> path_exists fs' [''lib'', ''shell'', ''m.mkv'']
         \<and> \<not> path_exists fs' [''lib'', ''shell'', ''n.mkv'']
         \<and> node_at fs' [''lib'', ''m.mkv''] = Some (File 7)
         \<and> node_at fs' [''lib'', ''keep'', ''own.txt''] = Some (File 9))
   \<and> action_delete_link fs_shell (tui_shell\<lparr>cursor_index := 0\<rparr>)
        = Inr (fs_shell, tui_shell\<lparr>cursor_index := 0\<rparr>, False)"
proof -
  let ?shell = "[''lib'', ''shell'']" and ?keep = "[''lib'', ''keep'']"
  let ?m = "[''lib'', ''shell'', ''m.mkv'']" and ?n = "[''lib'', ''shell'', ''n.mkv'']"
  let ?own = "[''lib'', ''keep'', ''own.txt'']"
  let ?t0 = "tui_shell\<lparr>cursor_index := 0\<rparr>"
  have d1: "is_dir fs_shell ?shell" and d0: "is_dir fs_shell ?keep"
    by (simp_all add: is_dir_def node_at_def fs_shell_def)
  have f: "\<not> is_dir fs_shell ?m" "\<not> is_dir fs_shell ?n"
    by (simp_all add: is_dir_def node_at_def fs_shell_def)
  have n: "st_nlink fs_shell ?m = Inr 2" "st_nlink fs_shell ?n = Inr 2"
    and n1: "st_nlink fs_shell ?own = Inr 1"
    by (simp_all add: st_nlink_def node_at_def fs_shell_def)
  have o: "node_at fs_shell [''lib'', ''m.mkv''] = Some (File 7)"
    "node_at fs_shell ?own = Some (File 9)"
    by (simp_all add: node_at_def fs_shell_def)
  have a: "items tui_shell \<noteq> []" "0 \<le> cursor_index tui_shell"
    "cursor_index tui_shell < int (length (items tui_shell))"
    "?shell = items tui_shell ! nat (cursor_index tui_shell)"
    by (simp_all add: tui_shell_def)
  have b: "items ?t0 \<noteq> []" "0 \<le> cursor_index ?t0"
    "cursor_index ?t0 < int (length (items ?t0))"
    "?keep = items ?t0 ! nat (cursor_index ?t0)"
    by (simp_all add: tui_shell_def)
  have nr: "?shell \<noteq> []" "?keep \<noteq> []" by simp_all
  have hyp: "children fs_shell ?shell \<noteq> []
              \<and> (\<forall>k \<in> set (children fs_shell ?shell).
                    \<not> is_dir fs_shell k \<and> (\<exists>m. st_nlink fs_shell k = Inr m \<and> 1 < m))"
    unfolding children_shell using f n by simp
  from delete_directory_entry [OF a d1 nr(1)] hyp
  obtain fs' s' where r: "action_delete_link fs_shell tui_shell = Inr (fs', s', False)"
    and g: "\<not> path_exists fs' ?shell"
    and k: "\<forall>k \<in> set (children fs_shell ?shell). \<not> path_exists fs' k"
    and fr: "\<forall>p. p \<noteq> ?shell \<and> p \<notin> set (children fs_shell ?shell)
                 \<longrightarrow> node_at fs' p = node_at fs_shell p"
    by blast
  from k have k2: "\<not> path_exists fs' ?m" "\<not> path_exists fs' ?n"
    unfolding children_shell by simp_all
  have "node_at fs' [''lib'', ''m.mkv''] = node_at fs_shell [''lib'', ''m.mkv'']"
    by (rule fr [rule_format]) (simp add: children_shell)
  moreover have "node_at fs' ?own = node_at fs_shell ?own"
    by (rule fr [rule_format]) (simp add: children_shell)
  ultimately have k3: "node_at fs' [''lib'', ''m.mkv''] = Some (File 7)"
    "node_at fs' ?own = Some (File 9)" using o by simp_all
  have one: "\<exists>fs' s'. action_delete_link fs_shell tui_shell = Inr (fs', s', False)
         \<and> \<not> path_exists fs' ?shell \<and> \<not> path_exists fs' ?m \<and> \<not> path_exists fs' ?n
         \<and> node_at fs' [''lib'', ''m.mkv''] = Some (File 7)
         \<and> node_at fs' ?own = Some (File 9)"
    using r g k2 k3 by blast
  have bad: "\<exists>k \<in> set (children fs_shell ?keep).
               is_dir fs_shell k \<or> (\<exists>m. st_nlink fs_shell k = Inr m \<and> m \<le> 1)"
    unfolding children_keep using n1 by simp
  from delete_directory_entry [OF b d0 nr(2)] bad
  have two: "action_delete_link fs_shell ?t0 = Inr (fs_shell, ?t0, False)" by blast
  show ?thesis
    using listing_shell d1 d0 n n1 one two by (intro conjI) assumption+
qed

section \<open>The deploy command\<close>

text \<open>A link adds one name, for the inode of its source, and changes no other path.\<close>

lemma os_link_node:
  assumes "os_link fs src dst = Inr fs1"
  shows "node_at fs1 p = (if p = dst then node_at fs src else node_at fs p)"
proof -
  from assms obtain i where i: "node_at fs src = Some (File i)"
    and ne: "\<not> path_exists fs dst"
    and fs1: "fs1 = fs\<lparr>tree := tree fs @ [(dst, File i)],
                         links := (links fs)(i := links fs i + 1)\<rparr>"
    by (auto simp: os_link_def split: option.splits node.splits if_splits)
  from ne have d: "dst \<noteq> []" and m: "map_of (tree fs) dst = None"
    by (auto simp: path_exists_def node_at_def split: if_splits)
  show ?thesis
    using i d m by (auto simp: fs1 node_at_def map_add_def split: option.splits)
qed









section \<open>The rename strategy\<close>

text \<open>
  The loop of a file source ends at the first free name when that name has a counter of
  at most 998, and gives up when the names up to counter 998 are all taken.
\<close>

lemma probe_file_finds:
  assumes "path_exists fs lp"
    and "\<forall>k. c \<le> k \<and> k < N \<longrightarrow> path_exists fs (d @ [renamed st k sf])"
    and "\<not> path_exists fs (d @ [renamed st N sf])"
    and "c \<le> N" and "N \<le> 998"
  shows "probe_file fs d st sf lp c = Some (d @ [renamed st N sf])"
  using assms
proof (induction "N - c" arbitrary: c lp)
  case 0
  then have c: "c = N" by simp
  have "probe_file fs d st sf (d @ [renamed st N sf]) (N + 1) = Some (d @ [renamed st N sf])"
    using 0 by (subst probe_file.simps) (simp add: is_symlink_def)
  with 0 c show ?case
    by (subst probe_file.simps) (simp add: joinpath_def renamed_nonempty)
next
  case (Suc m)
  then have lt: "c < N" by simp
  with Suc.prems have ex: "path_exists fs (d @ [renamed st c sf])" by simp
  have "probe_file fs d st sf (d @ [renamed st c sf]) (c + 1) = Some (d @ [renamed st N sf])"
    using Suc.hyps(2) Suc.prems lt ex by (intro Suc.hyps(1)) auto
  with Suc.prems lt show ?case
    by (subst probe_file.simps) (simp add: joinpath_def renamed_nonempty)
qed

lemma probe_file_gives_up:
  assumes "path_exists fs lp"
    and "\<forall>k. c \<le> k \<and> k \<le> 998 \<longrightarrow> path_exists fs (d @ [renamed st k sf])"
    and "c \<le> 999"
  shows "probe_file fs d st sf lp c = None"
  using assms
proof (induction "999 - c" arbitrary: c lp)
  case 0
  then have "c = 999" by simp
  with 0 show ?case by (subst probe_file.simps) simp
next
  case (Suc m)
  then have le: "c \<le> 998" by simp
  with Suc.prems have ex: "path_exists fs (d @ [renamed st c sf])" by simp
  have "probe_file fs d st sf (d @ [renamed st c sf]) (c + 1) = None"
    using Suc.hyps(2) Suc.prems le ex by (intro Suc.hyps(1)) auto
  with Suc.prems le show ?case
    by (subst probe_file.simps) (simp add: joinpath_def renamed_nonempty)
qed

text \<open>
  The loop inside the walk ends at the first free name whatever its counter; from
  counter 999 on it has cleared \<^verbatim>\<open>all_success\<close>.
\<close>

lemma probe_dir_finds:
  assumes "path_exists fs df"
    and "\<forall>k. c \<le> k \<and> k < N \<longrightarrow> path_exists fs (d @ [renamed st k sf])"
    and "\<not> path_exists fs (d @ [renamed st N sf])"
    and "c \<le> N"
  shows "probe_dir fs d st sf df c ok
           = (d @ [renamed st N sf], if 999 < N + 1 then False else ok)"
  using assms
proof (induction "N - c" arbitrary: c df ok)
  case 0
  then have c: "c = N" by simp
  have "\<And>b. probe_dir fs d st sf (d @ [renamed st N sf]) (N + 1) b = (d @ [renamed st N sf], b)"
    using 0 by (subst probe_dir.simps) (simp add: is_symlink_def)
  with 0 c show ?case
    by (subst probe_dir.simps) (simp add: joinpath_def renamed_nonempty)
next
  case (Suc m)
  then have lt: "c < N" by simp
  with Suc.prems have ex: "path_exists fs (d @ [renamed st c sf])" by simp
  have "\<And>b. probe_dir fs d st sf (d @ [renamed st c sf]) (c + 1) b
            = (d @ [renamed st N sf], if 999 < N + 1 then False else b)"
    using Suc.hyps(2) Suc.prems lt ex by (intro Suc.hyps(1)) auto
  with Suc.prems lt show ?case
    by (subst probe_dir.simps) (auto simp: joinpath_def renamed_nonempty)
qed

text \<open>The two branches of \<^verbatim>\<open>create_hardlink\<close> around their loops.\<close>

lemma collides_iff:
  "collides fs dir nm N \<longleftrightarrow>
     path_exists fs (dir @ [nm])
     \<and> (\<forall>k. 1 \<le> k \<and> k < N \<longrightarrow> path_exists fs (dir @ [renamed (stem_of nm) k (suffix_of nm)]))"
  by (auto simp: collides_def candidate_def list_all_iff)

lemma os_link_free:
  assumes "is_file fs src" and "\<not> path_exists fs dst" and "is_dir fs (parent dst)"
  shows "\<exists>fs'. os_link fs src dst = Inr fs' \<and> node_at fs' dst = node_at fs src
            \<and> (\<forall>p. p \<noteq> dst \<longrightarrow> node_at fs' p = node_at fs p)"
proof -
  from assms(1) obtain i where "node_at fs src = Some (File i)"
    by (auto simp: is_file_def split: option.splits node.splits)
  with assms(2,3) obtain fs' where l: "os_link fs src dst = Inr fs'"
    by (simp add: os_link_def)
  with os_link_node [OF l] show ?thesis by simp
qed

lemma deploy_file_rename_finds:
  assumes src: "is_file fs source" and dst: "is_dir fs d" and nm: "nm \<noteq> []"
    and col: "collides fs d nm N" and free: "\<not> path_exists fs (candidate d nm N)"
    and N: "1 \<le> N" "N \<le> 998"
  shows "\<exists>fs'. deploy_file fs source d (d @ [nm]) ''rename'' = (True, fs')
            \<and> os_link fs source (candidate d nm N) = Inr fs'
            \<and> node_at fs' (candidate d nm N) = node_at fs source
            \<and> (\<forall>p. p \<noteq> candidate d nm N \<longrightarrow> node_at fs' p = node_at fs p)"
proof -
  from col have e: "path_exists fs (d @ [nm])"
    and c: "\<forall>k. 1 \<le> k \<and> k < N \<longrightarrow> path_exists fs (d @ [renamed (stem_of nm) k (suffix_of nm)])"
    by (simp_all add: collides_iff)
  from free have f: "\<not> path_exists fs (d @ [renamed (stem_of nm) N (suffix_of nm)])"
    by (simp add: candidate_def)
  from probe_file_finds [OF e c f N]
  have p: "probe_file fs d (stem_of nm) (suffix_of nm) (d @ [nm]) 1 = Some (candidate d nm N)"
    by (simp add: candidate_def)
  have "parent (candidate d nm N) = d" by (simp add: parent_def candidate_def)
  with dst have "is_dir fs (parent (candidate d nm N))" by simp
  from os_link_free [OF src free this] obtain fs' where
    l: "os_link fs source (candidate d nm N) = Inr fs'"
    and n: "node_at fs' (candidate d nm N) = node_at fs source"
    and o: "\<forall>p. p \<noteq> candidate d nm N \<longrightarrow> node_at fs' p = node_at fs p" by blast
  have "deploy_file fs source d (d @ [nm]) ''rename'' = (True, fs')"
    using e p l nm by (simp add: deploy_file_def name_of_def link_file_def)
  with l n o show ?thesis by blast
qed

lemma deploy_file_rename_gives_up:
  assumes nm: "nm \<noteq> []" and col: "collides fs d nm 999"
  shows "deploy_file fs source d (d @ [nm]) ''rename'' = (False, fs)"
proof -
  from col have e: "path_exists fs (d @ [nm])"
    and c: "\<forall>k. 1 \<le> k \<and> k \<le> 998 \<longrightarrow> path_exists fs (d @ [renamed (stem_of nm) k (suffix_of nm)])"
    by (simp_all add: collides_iff)
  from probe_file_gives_up [OF e c]
  have "probe_file fs d (stem_of nm) (suffix_of nm) (d @ [nm]) 1 = None" by simp
  with e nm show ?thesis by (simp add: deploy_file_def name_of_def)
qed

lemma link_one_rename_finds:
  assumes src: "is_file fs (root @ [nm])" and dst: "is_dir fs dest_root" and nm: "nm \<noteq> []"
    and col: "collides fs dest_root nm N" and free: "\<not> path_exists fs (candidate dest_root nm N)"
    and N: "1 \<le> N"
  shows "\<exists>fs'. link_one root dest_root ''rename'' (fs, ok) nm
                 = (fs', if 999 < N + 1 then False else ok)
            \<and> os_link fs (root @ [nm]) (candidate dest_root nm N) = Inr fs'
            \<and> node_at fs' (candidate dest_root nm N) = node_at fs (root @ [nm])
            \<and> (\<forall>p. p \<noteq> candidate dest_root nm N \<longrightarrow> node_at fs' p = node_at fs p)"
proof -
  from col have e: "path_exists fs (dest_root @ [nm])"
    and c: "\<forall>k. 1 \<le> k \<and> k < N
               \<longrightarrow> path_exists fs (dest_root @ [renamed (stem_of nm) k (suffix_of nm)])"
    by (simp_all add: collides_iff)
  from free have f: "\<not> path_exists fs (dest_root @ [renamed (stem_of nm) N (suffix_of nm)])"
    by (simp add: candidate_def)
  from probe_dir_finds [OF e c f N(1)]
  have p: "probe_dir fs dest_root (stem_of nm) (suffix_of nm) (dest_root @ [nm]) 1 ok
             = (candidate dest_root nm N, if 999 < N + 1 then False else ok)"
    by (simp add: candidate_def)
  have "parent (candidate dest_root nm N) = dest_root" by (simp add: parent_def candidate_def)
  with dst have "is_dir fs (parent (candidate dest_root nm N))" by simp
  from os_link_free [OF src free this] obtain fs' where
    l: "os_link fs (root @ [nm]) (candidate dest_root nm N) = Inr fs'"
    and n: "node_at fs' (candidate dest_root nm N) = node_at fs (root @ [nm])"
    and o: "\<forall>p. p \<noteq> candidate dest_root nm N \<longrightarrow> node_at fs' p = node_at fs p" by blast
  have "link_one root dest_root ''rename'' (fs, ok) nm
          = (fs', if 999 < N + 1 then False else ok)"
    using e p l nm
    by (simp add: link_one_def Let_def joinpath_def name_of_def try_link_def)
  with l n o show ?thesis by blast
qed

lemma create_hardlink_file_source:
  assumes "is_file fs source" "is_dir fs d" "link_name_for name source = nm" "nm \<noteq> []"
  shows "create_hardlink n fs source d name strategy
           = Some (deploy_file fs source d (d @ [nm]) strategy)"
proof -
  from assms(1) have "path_exists fs source" "\<not> is_dir fs source"
    by (auto simp: is_file_def path_exists_def is_dir_def split: option.splits node.splits)
  with assms show ?thesis by (simp add: create_hardlink_def Let_def joinpath_def)
qed

text \<open>
  C1, amended. Under strategy \<^verbatim>\<open>rename\<close>, when the destination name and its renamings
  1 to \<open>N - 1\<close> exist and renaming \<open>N\<close> is free, with \<open>1 \<le> N \<le> 998\<close>: a file source is
  linked at renaming \<open>N\<close> and the call returns \<^verbatim>\<open>True\<close>; a file met inside a recursive
  directory deployment is linked at renaming \<open>N\<close> and \<^verbatim>\<open>all_success\<close> is left as it was.
  In both cases no other path changes. For a file source, when the name and its
  renamings 1 to 998 all exist, the call returns \<^verbatim>\<open>False\<close> and the file system is
  unchanged.
\<close>

theorem rename_strategy_probing:
  assumes N: "1 \<le> N" "N \<le> 998" and nm: "nm \<noteq> []"
  shows "(is_file fs source \<and> is_dir fs d \<and> link_name_for name source = nm
            \<and> collides fs d nm N \<and> \<not> path_exists fs (candidate d nm N)
          \<longrightarrow> (\<exists>fs'. create_hardlink n fs source d name ''rename'' = Some (True, fs')
                 \<and> os_link fs source (candidate d nm N) = Inr fs'
                 \<and> node_at fs' (candidate d nm N) = node_at fs source
                 \<and> (\<forall>p. p \<noteq> candidate d nm N \<longrightarrow> node_at fs' p = node_at fs p)))
       \<and> (is_file fs source \<and> is_dir fs d \<and> link_name_for name source = nm
            \<and> collides fs d nm 999
          \<longrightarrow> create_hardlink n fs source d name ''rename'' = Some (False, fs))
       \<and> (is_file fs (root @ [nm]) \<and> is_dir fs dest_root
            \<and> collides fs dest_root nm N \<and> \<not> path_exists fs (candidate dest_root nm N)
          \<longrightarrow> (\<exists>fs'. link_one root dest_root ''rename'' (fs, ok) nm = (fs', ok)
                 \<and> os_link fs (root @ [nm]) (candidate dest_root nm N) = Inr fs'
                 \<and> node_at fs' (candidate dest_root nm N) = node_at fs (root @ [nm])
                 \<and> (\<forall>p. p \<noteq> candidate dest_root nm N \<longrightarrow> node_at fs' p = node_at fs p)))"
proof -
  have ch: "create_hardlink n fs source d name ''rename''
              = Some (deploy_file fs source d (d @ [nm]) ''rename'')"
    if "is_file fs source" "is_dir fs d" "link_name_for name source = nm"
    using that nm by (rule create_hardlink_file_source)
  have a: "is_file fs source \<and> is_dir fs d \<and> link_name_for name source = nm
            \<and> collides fs d nm N \<and> \<not> path_exists fs (candidate d nm N)
          \<longrightarrow> (\<exists>fs'. create_hardlink n fs source d name ''rename'' = Some (True, fs')
                 \<and> os_link fs source (candidate d nm N) = Inr fs'
                 \<and> node_at fs' (candidate d nm N) = node_at fs source
                 \<and> (\<forall>p. p \<noteq> candidate d nm N \<longrightarrow> node_at fs' p = node_at fs p))"
    using deploy_file_rename_finds [of fs source d nm N] ch N nm by auto
  have b: "is_file fs source \<and> is_dir fs d \<and> link_name_for name source = nm
            \<and> collides fs d nm 999
          \<longrightarrow> create_hardlink n fs source d name ''rename'' = Some (False, fs)"
    using deploy_file_rename_gives_up [of nm fs d source] ch nm by auto
  have c: "is_file fs (root @ [nm]) \<and> is_dir fs dest_root
            \<and> collides fs dest_root nm N \<and> \<not> path_exists fs (candidate dest_root nm N)
          \<longrightarrow> (\<exists>fs'. link_one root dest_root ''rename'' (fs, ok) nm = (fs', ok)
                 \<and> os_link fs (root @ [nm]) (candidate dest_root nm N) = Inr fs'
                 \<and> node_at fs' (candidate dest_root nm N) = node_at fs (root @ [nm])
                 \<and> (\<forall>p. p \<noteq> candidate dest_root nm N \<longrightarrow> node_at fs' p = node_at fs p))"
    using link_one_rename_finds [of fs root nm dest_root N ok] N nm by auto
  from a b c show ?thesis by blast
qed

lemma path_exists_keys: "path_exists fs p \<longleftrightarrow> p = [] \<or> p \<in> fst ` set (tree fs)"
proof (cases "p = []")
  case True
  then show ?thesis by (simp add: path_exists_def node_at_def)
next
  case False
  have "map_of (tree fs) p \<noteq> None \<longleftrightarrow> p \<in> dom (map_of (tree fs))"
    by (simp add: domIff)
  then have "map_of (tree fs) p \<noteq> None \<longleftrightarrow> p \<in> fst ` set (tree fs)"
    by (simp only: dom_map_of_conv_image_fst)
  with False show ?thesis by (simp add: path_exists_def node_at_def)
qed

lemma candidate_b: "candidate [''B''] ''b.txt'' k = [''B'', ''b ('' @ show_nat k @ '').txt'']"
  by (simp add: candidate_def renamed_def stem_of_def suffix_of_def)

lemma candidate_inj: "candidate d nm a = candidate d nm b \<Longrightarrow> a = b"
  by (auto simp: candidate_def dest: renamed_inj)

lemma fs_full_collides: "collides fs_full [''B''] ''b.txt'' 999"
proof -
  have "\<And>k. k \<in> set [1..<999] \<Longrightarrow> candidate [''B''] ''b.txt'' k \<in> fst ` set (tree fs_full)"
    by (force simp: fs_full_def)
  then show ?thesis
    by (auto simp: collides_def list_all_iff path_exists_keys) (simp add: fs_full_def)
qed

lemma fs_full_free: "\<not> path_exists fs_full (candidate [''B''] ''b.txt'' 999)"
proof -
  have "candidate [''B''] ''b.txt'' 999 \<notin> (\<lambda>k. candidate [''B''] ''b.txt'' k) ` set [1..<999]"
    by (auto dest: candidate_inj)
  then show ?thesis
    by (auto simp: path_exists_keys fs_full_def image_Un image_image candidate_b)
qed

lemma fs_full_basics:
  "is_file fs_full [''src'', ''b.txt'']" "is_dir fs_full [''B'']"
  "link_name_for None [''src'', ''b.txt''] = ''b.txt''"
  by (simp_all add: is_file_def is_dir_def node_at_def fs_full_def link_name_for_def name_of_def)

text \<open>
  C1, as stated, fails at \<open>N = 999\<close> for a file source: with the 999 entries
  \<^verbatim>\<open>b.txt\<close>, \<^verbatim>\<open>b (1).txt\<close>, ..., \<^verbatim>\<open>b (998).txt\<close> in place and \<^verbatim>\<open>b (999).txt\<close> free,
  the call returns \<^verbatim>\<open>False\<close> and creates nothing.
\<close>

theorem rename_999_counterexample:
  "is_file fs_full [''src'', ''b.txt''] \<and> is_dir fs_full [''B'']
   \<and> collides fs_full [''B''] ''b.txt'' 999
   \<and> \<not> path_exists fs_full (candidate [''B''] ''b.txt'' 999)
   \<and> create_hardlink 0 fs_full [''src'', ''b.txt''] [''B''] None ''rename''
        = Some (False, fs_full)"
proof -
  have "create_hardlink 0 fs_full [''src'', ''b.txt''] [''B''] None ''rename''
          = Some (deploy_file fs_full [''src'', ''b.txt''] [''B''] ([''B''] @ [''b.txt''])
                    ''rename'')"
    by (rule create_hardlink_file_source [OF fs_full_basics]) simp
  also have "deploy_file fs_full [''src'', ''b.txt''] [''B''] ([''B''] @ [''b.txt'']) ''rename''
          = (False, fs_full)"
    by (rule deploy_file_rename_gives_up [OF _ fs_full_collides]) simp
  finally show ?thesis
    using fs_full_basics fs_full_collides fs_full_free by simp
qed

lemma show_nat_small: "show_nat 1 = ''1''" "show_nat 2 = ''2''"
  by (subst show_nat.simps, simp add: digit_def)+

lemma candidate_b_2: "candidate [''B''] ''b.txt'' 2 = [''B'', ''b (2).txt'']"
  unfolding candidate_b show_nat_small by simp

lemma candidate_b_1: "candidate [''B''] ''b.txt'' 1 = [''B'', ''b (1).txt'']"
  unfolding candidate_b show_nat_small by simp

lemma candidate_b_Suc_0: "candidate [''B''] ''b.txt'' (Suc 0) = [''B'', ''b (1).txt'']"
  using candidate_b_1 by simp

lemma fs_two_facts:
  "is_file fs_two [''src'', ''b.txt'']" "is_dir fs_two [''B'']"
  "link_name_for None [''src'', ''b.txt''] = ''b.txt''"
  "candidate [''B''] ''b.txt'' 2 = [''B'', ''b (2).txt'']"
  "collides fs_two [''B''] ''b.txt'' 2"
  "\<not> path_exists fs_two (candidate [''B''] ''b.txt'' 2)"
  "node_at fs_two [''src'', ''b.txt''] = Some (File 3)"
proof -
  show "is_file fs_two [''src'', ''b.txt'']" "is_dir fs_two [''B'']"
    "node_at fs_two [''src'', ''b.txt''] = Some (File 3)"
    by (simp_all add: is_file_def is_dir_def node_at_def fs_two_def)
  show "link_name_for None [''src'', ''b.txt''] = ''b.txt''"
    by (simp add: link_name_for_def name_of_def)
  show "candidate [''B''] ''b.txt'' 2 = [''B'', ''b (2).txt'']" by (rule candidate_b_2)
  have "[1..<2] = [1::nat]" by (simp add: upt_rec)
  then show "collides fs_two [''B''] ''b.txt'' 2"
    unfolding collides_def
    by (simp add: candidate_b_Suc_0 path_exists_def node_at_def fs_two_def)
  show "\<not> path_exists fs_two (candidate [''B''] ''b.txt'' 2)"
    by (simp add: candidate_b_2 path_exists_def node_at_def fs_two_def)
qed

text \<open>
  C1 at two collisions (the link is made at \<^verbatim>\<open>b (2).txt\<close>, for the file source and
  inside a walk) and at the 999 entries (the file source gives up).
\<close>

theorem rename_strategy_probing_witness:
  "collides fs_two [''B''] ''b.txt'' 2
   \<and> \<not> path_exists fs_two (candidate [''B''] ''b.txt'' 2)
   \<and> candidate [''B''] ''b.txt'' 2 = [''B'', ''b (2).txt'']
   \<and> (\<exists>fs'. create_hardlink 0 fs_two [''src'', ''b.txt''] [''B''] None ''rename''
                = Some (True, fs')
          \<and> node_at fs' [''B'', ''b (2).txt''] = Some (File 3))
   \<and> collides fs_full [''B''] ''b.txt'' 999
   \<and> create_hardlink 0 fs_full [''src'', ''b.txt''] [''B''] None ''rename''
        = Some (False, fs_full)
   \<and> (\<exists>fs'. link_one [''src''] [''B''] ''rename'' (fs_two, True) ''b.txt'' = (fs', True)
          \<and> node_at fs' [''B'', ''b (2).txt''] = Some (File 3))"
proof -
  have N: "(1::nat) \<le> 2" "(2::nat) \<le> 998" and nm: "''b.txt'' \<noteq> []" by simp_all
  note t2 = rename_strategy_probing [OF N nm, of fs_two "[''src'', ''b.txt'']" "[''B'']" None
               0 "[''src'']" "[''B'']" True]
  note tf = rename_strategy_probing [OF N nm, of fs_full "[''src'', ''b.txt'']" "[''B'']" None
               0 "[''src'']" "[''B'']" True]
  have one: "\<exists>fs'. create_hardlink 0 fs_two [''src'', ''b.txt''] [''B''] None ''rename''
                = Some (True, fs')
          \<and> node_at fs' [''B'', ''b (2).txt''] = Some (File 3)"
    using t2 fs_two_facts by auto
  have two: "create_hardlink 0 fs_full [''src'', ''b.txt''] [''B''] None ''rename''
        = Some (False, fs_full)"
    using tf fs_full_basics fs_full_collides by blast
  have src: "is_file fs_two ([''src''] @ [''b.txt''])" using fs_two_facts(1) by simp
  have three: "\<exists>fs'. link_one [''src''] [''B''] ''rename'' (fs_two, True) ''b.txt'' = (fs', True)
          \<and> node_at fs' [''B'', ''b (2).txt''] = Some (File 3)"
    using t2 fs_two_facts src by auto
  from fs_two_facts(4,5,6) fs_full_collides one two three show ?thesis by blast
qed

text \<open>
  Inside a walk the loop does not stop at the limit: with 999 or more entries in place
  the file is still linked, at the first free name, and the deployment is reported as
  failed.
\<close>

lemma link_one_rename_past_limit:
  assumes "is_file fs (root @ [nm])" and "is_dir fs dest_root" and "nm \<noteq> []"
    and "collides fs dest_root nm N" and "\<not> path_exists fs (candidate dest_root nm N)"
    and "999 \<le> N"
  shows "\<exists>fs'. link_one root dest_root ''rename'' (fs, ok) nm = (fs', False)
            \<and> node_at fs' (candidate dest_root nm N) = node_at fs (root @ [nm])"
proof -
  from assms(6) have "1 \<le> N" by simp
  from link_one_rename_finds [OF assms(1-5) this, of ok] assms(6) show ?thesis by auto
qed

section \<open>A sub-directory that cannot be created\<close>

text \<open>The failure flag through the rename loop, one file, one directory and the walk.\<close>

lemma weaken_simps [simp]:
  "weaken b (fs, a) = (fs, a \<and> b)"
  "weaken a (weaken b st) = weaken (b \<and> a) st"
  "weaken True st = st"
  by (auto simp: weaken_def)





















end
